theory Spec2Isabelle
  imports Main "HOL-Library.Multiset"
begin

text \<open>
  A model of \<open>main.go\<close>, the relay that spreads DeepLX requests over DeepL keys and DeepLX
  endpoints: the pool of alive upstreams (\<open>safeAliveKeysAndURLs\<close>, \<open>removeKeyOrURL\<close>), the
  reading of \<open>apis.txt\<close> (\<open>parseKeysAndURLs\<close>), the probe (\<open>checkAlive\<close>), the refresh
  (\<open>runCheck\<close>) and the forwarding handler (\<open>handleForward\<close>). The program is read as one
  thread of control: the locks, and the order in which the goroutines of a refresh finish,
  are not modelled. Logging is left out: it changes no result.
\<close>

section \<open>Go strings\<close>

text \<open>
  A Go string is modelled by the sequence of its Unicode code points (the text is taken to
  be valid UTF-8, so equality and prefix tests on code points agree with Go's tests on
  bytes). \<open>str\<close> turns an ASCII literal into such a string.
\<close>

type_synonym rune = nat
type_synonym gostring = "rune list"

definition str :: "string \<Rightarrow> gostring" where
  "str s = map of_char s"

text \<open>\<open>unicode.IsSpace\<close>: the code points with the Unicode property White_Space.\<close>

definition IsSpace :: "rune \<Rightarrow> bool" where
  "IsSpace r =
     ((9 \<le> r \<and> r \<le> 13) \<or> r = 32 \<or> r = 133 \<or> r = 160 \<or> r = 5760
      \<or> (8192 \<le> r \<and> r \<le> 8202) \<or> r = 8232 \<or> r = 8233 \<or> r = 8239 \<or> r = 8287
      \<or> r = 12288)"

text \<open>\<open>strings.TrimSpace\<close>: leading and trailing white space removed.\<close>

definition TrimSpace :: "gostring \<Rightarrow> gostring" where
  "TrimSpace s = rev (dropWhile IsSpace (rev (dropWhile IsSpace s)))"

text \<open>\<open>strings.HasPrefix\<close>.\<close>

definition HasPrefix :: "gostring \<Rightarrow> gostring \<Rightarrow> bool" where
  "HasPrefix s p = (length p \<le> length s \<and> take (length p) s = p)"

section \<open>Wire types\<close>

text \<open>
  The four structs of lines 23 to 49. Go allows the field \<open>Text\<close> in several structs; here
  the fields of the two requests and of a translation carry the struct in their names.
\<close>

record deepLReq =
  lReq_Text :: "gostring list"
  lReq_TargetLang :: gostring
  lReq_TagHandling :: gostring

record translation =
  DetectedSourceLang :: gostring
  tr_Text :: gostring

text \<open>
  \<open>Translations\<close> is a Go slice that the code compares with \<open>nil\<close>: \<open>None\<close> is the nil
  slice (the field absent or \<open>null\<close> in the reply), \<open>Some []\<close> the empty, non-nil slice
  that decoding the JSON array \<open>[]\<close> gives.
\<close>

record deepLResp =
  Translations :: "translation list option"
  Message :: gostring

record deepLXReq =
  lxReq_Text :: gostring
  lxReq_SourceLang :: gostring
  lxReq_TargetLang :: gostring
  lxReq_TagHandling :: gostring

record deepLXResp =
  Code :: int
  ID :: int
  Data :: gostring
  Alternatives :: "gostring list"

section \<open>Errors\<close>

text \<open>
  The three error variables of the program, the error of an empty \<open>apis.txt\<close>, and any other
  error (of the file system, the transport or a decoder) with its message.
\<close>

datatype err =
    ErrDeepLTooManyRequests
  | ErrIsChecking
  | ErrGoogleTranslateFailed
  | ErrApisEmpty
  | ErrOther gostring

fun Error :: "err \<Rightarrow> gostring" where
  "Error ErrDeepLTooManyRequests = str ''too many requests''"
| "Error ErrIsChecking = str ''currently checking''"
| "Error ErrGoogleTranslateFailed = str ''google translate failed''"
| "Error ErrApisEmpty = str ''apis.txt is empty''"
| "Error (ErrOther m) = m"

section \<open>The world outside the process\<close>

text \<open>
  \<open>apis.txt\<close> as the program meets it: \<open>os.Open\<close> fails, or the scanner delivers the lines
  and ends with \<open>scanner.Err()\<close> (\<open>None\<close> is nil).
\<close>

datatype apisFile =
    OpenFailed err
  | Opened "gostring list" "err option"

text \<open>
  What the outside answers during one pass of the handler: the file, the outcome of the two
  \<open>post\<close> methods (lines 56 to 135; each of their returns is an error, with the zero reply,
  or the decoded reply with a nil error), the outcome of \<open>googleTranslate\<close> (lines 324 to
  366; \<open>None\<close>: a type assertion on Google's reply panics), and the raw values behind the
  two kinds of \<open>rand.IntN\<close> call.
\<close>

record world =
  apis :: apisFile
  deepLReq_post :: "deepLReq \<Rightarrow> gostring \<Rightarrow> err + deepLResp"
  deepLXReq_post :: "deepLXReq \<Rightarrow> gostring \<Rightarrow> err + deepLXResp"
  googleTranslate :: "gostring \<Rightarrow> gostring \<Rightarrow> gostring \<Rightarrow> (err + gostring) option"
  randFamily :: nat
  randIndex :: nat

text \<open>\<open>rand.IntN n\<close> panics (\<open>None\<close>) when \<open>n \<le> 0\<close>, and is below \<open>n\<close> otherwise.\<close>

definition IntN :: "nat \<Rightarrow> nat \<Rightarrow> nat option" where
  "IntN raw n = (if n = 0 then None else Some (raw mod n))"

section \<open>The pool\<close>

record safeAliveKeysAndURLs =
  keys :: "gostring list"
  urls :: "gostring list"

text \<open>
  \<open>removeKeyOrURL\<close> (lines 137 to 159). The \<open>range\<close> loop returns at the first index that
  holds the value: \<open>firstIndex\<close> is that index.
\<close>

primrec firstIndex :: "'a \<Rightarrow> 'a list \<Rightarrow> nat option" where
  "firstIndex x [] = None"
| "firstIndex x (v # vs) = (if v = x then Some 0 else map_option Suc (firstIndex x vs))"

text \<open>The body of the loop at a hit: the last element moves to index \<open>i\<close>, the slice loses its end.\<close>

definition swapRemove :: "nat \<Rightarrow> 'a list \<Rightarrow> 'a list" where
  "swapRemove i xs = butlast (xs[i := last xs])"

definition removeKeyOrURL ::
  "bool \<Rightarrow> gostring \<Rightarrow> safeAliveKeysAndURLs \<Rightarrow> bool \<times> safeAliveKeysAndURLs" where
  "removeKeyOrURL isKey keyOrURL saku =
     (let slice = (if isKey then keys saku else urls saku) in
      case firstIndex keyOrURL slice of
        None \<Rightarrow> (False, saku)
      | Some i \<Rightarrow>
          (True, if isKey then saku\<lparr>keys := swapRemove i slice\<rparr>
                 else saku\<lparr>urls := swapRemove i slice\<rparr>))"

section \<open>Reading the configured list\<close>

text \<open>\<open>parseKeysAndURLs\<close> (lines 161 to 199). The test of line 177:\<close>

definition isComment :: "gostring \<Rightarrow> bool" where
  "isComment text = (HasPrefix text (str ''#'') \<or> HasPrefix text (str ''//''))"

text \<open>
  The scanner loop of \<open>parseKeysAndURLs\<close>, with its three variables \<open>keys\<close>, \<open>urls\<close> and
  \<open>isEmpty\<close>.
\<close>

fun scanLines ::
  "gostring list \<Rightarrow> gostring list \<times> gostring list \<times> bool
     \<Rightarrow> gostring list \<times> gostring list \<times> bool" where
  "scanLines [] acc = acc"
| "scanLines (l # ls) (ks, us, isEmpty) =
     (let text = TrimSpace l in
      if isComment text then scanLines ls (ks, us, isEmpty)
      else if HasPrefix text (str ''http'') then scanLines ls (ks, us @ [text], False)
      else scanLines ls (ks @ [text], us, False))"

definition parseKeysAndURLs :: "apisFile \<Rightarrow> err + (gostring list \<times> gostring list)" where
  "parseKeysAndURLs file =
     (case file of
        OpenFailed e \<Rightarrow> Inl e
      | Opened ls scanErr \<Rightarrow>
          (case scanLines ls ([], [], True) of (ks, us, isEmpty) \<Rightarrow>
             if isEmpty then Inl ErrApisEmpty
             else (case scanErr of Some e \<Rightarrow> Inl e | None \<Rightarrow> Inr (ks, us))))"

section \<open>Probing\<close>

text \<open>
  \<open>checkAlive\<close> (lines 201 to 247): the result and the error, \<open>None\<close> for nil. The test of
  line 219 is \<open>lResp.Translations == nil\<close>.
\<close>

definition checkAlive :: "world \<Rightarrow> bool \<Rightarrow> gostring \<Rightarrow> bool \<times> err option" where
  "checkAlive w isKey keyOrURL =
     (if isKey then
        (case deepLReq_post w
                \<lparr>lReq_Text = [str ''test''], lReq_TargetLang = str ''zh'', lReq_TagHandling = []\<rparr>
                keyOrURL of
           Inl e \<Rightarrow> (False, None)
         | Inr lResp \<Rightarrow>
             if Translations lResp = None then (False, None) else (True, None))
      else
        (case deepLXReq_post w
                \<lparr>lxReq_Text = str ''test'', lxReq_SourceLang = str ''en'',
                 lxReq_TargetLang = str ''zh'', lxReq_TagHandling = []\<rparr>
                keyOrURL of
           Inl e \<Rightarrow> (False, None)
         | Inr lxResp \<Rightarrow>
             if Code lxResp \<noteq> 200 then (False, None) else (True, None)))"

section \<open>Refreshing the pool\<close>

text \<open>A request that left the process, for the record of what a run did on the network.\<close>

datatype netcall =
    Probe bool gostring
  | Post bool gostring
  | Google

text \<open>
  The shared state: the pool, the flag \<open>isChecking\<close>, and (not in the program) the
  requests sent so far.
\<close>

record globals =
  saku :: safeAliveKeysAndURLs
  isChecking :: bool
  calls :: "netcall list"

text \<open>What one goroutine of \<open>runCheck\<close> decides: append the upstream or not.\<close>

definition probedAlive :: "world \<Rightarrow> bool \<Rightarrow> gostring \<Rightarrow> bool" where
  "probedAlive w isKey keyOrURL =
     (case checkAlive w isKey keyOrURL of
        (isAlive, Some e) \<Rightarrow> False
      | (isAlive, None) \<Rightarrow> isAlive)"

text \<open>
  \<open>runCheck\<close> (lines 252 to 315). The goroutines are run one after the other in the order of
  the list, so the alive upstreams are appended in that order (in the program the order of
  the appends is that in which the probes finish; what is proved below of the new slices,
  their elements and the absence of repetitions, does not depend on it). The flag is set,
  and the deferred function clears it on the way out.
\<close>

definition runCheck :: "world \<Rightarrow> globals \<Rightarrow> (err + nat \<times> nat) \<times> globals" where
  "runCheck w g =
     (if isChecking g then (Inl ErrIsChecking, g)
      else
        (let g1 = g\<lparr>isChecking := True\<rparr> in
         case parseKeysAndURLs (apis w) of
           Inl e \<Rightarrow> (Inl e, g1\<lparr>isChecking := False\<rparr>)
         | Inr (ks, us) \<Rightarrow>
             (let aliveKeys = filter (probedAlive w True) ks;
                  aliveURLs = filter (probedAlive w False) us;
                  g2 = g1\<lparr>saku := \<lparr>keys = aliveKeys, urls = aliveURLs\<rparr>,
                          calls := calls g1 @ map (Probe True) ks @ map (Probe False) us\<rparr>
              in (Inr (length ks, length us), g2\<lparr>isChecking := False\<rparr>))))"

section \<open>The forwarding handler\<close>

text \<open>
  \<open>containsChinese\<close> (lines 317 to 320): the regular expression for the script Han matches
  when some code point of the text is in the table Han, the first argument here.
\<close>

definition containsChinese :: "(rune \<Rightarrow> bool) \<Rightarrow> gostring \<Rightarrow> bool" where
  "containsChinese han text = list_ex han text"

text \<open>
  What is fixed when the handler is built: the flag \<open>-c\<close>, and two pieces of Go's library
  that the handler relies on: the table of the script Han of package \<open>unicode\<close>, and the
  JSON decoder for \<open>deepLXReq\<close> (\<open>None\<close>: \<open>Decode\<close> returns an error).
\<close>

record options =
  enableCheckContainsChinese :: bool
  isHan :: "rune \<Rightarrow> bool"
  jsonDecode :: "gostring \<Rightarrow> deepLXReq option"

text \<open>What the handler writes: \<open>http.Error\<close> with a status and a message, or the reply.\<close>

datatype response =
    HttpError nat gostring
  | Translated deepLXResp

text \<open>
  How one pass from the label \<open>reTranslate\<close> ends: the handler returns, it jumps back to
  the label, or it panics.
\<close>

datatype step =
    Done response
  | Again
  | Panicked

text \<open>
  The state of one request: the shared state and \<open>forceUseDeepL\<close>, which is declared
  before the label (line 379) and so lives through the jumps.
\<close>

record hstate =
  shared :: globals
  forceUseDeepL :: bool

definition noted :: "netcall \<Rightarrow> hstate \<Rightarrow> hstate" where
  "noted c st = st\<lparr>shared := (shared st)\<lparr>calls := calls (shared st) @ [c]\<rparr>\<rparr>"

definition evicted :: "bool \<Rightarrow> gostring \<Rightarrow> hstate \<Rightarrow> hstate" where
  "evicted isKey keyOrURL st =
     st\<lparr>shared := (shared st)\<lparr>saku := snd (removeKeyOrURL isKey keyOrURL (saku (shared st)))\<rparr>\<rparr>"

text \<open>
  \<open>handleForward\<close> (lines 368 to 530) is cut into the parts of one pass. The top of a pass
  (lines 383 to 413): with both slices empty the pool is refreshed, and the request ends
  (\<open>Some\<close>) when the refresh fails or leaves both empty.
\<close>

definition refreshIfEmpty :: "world \<Rightarrow> globals \<Rightarrow> response option \<times> globals" where
  "refreshIfEmpty w g =
     (if keys (saku g) = [] \<and> urls (saku g) = [] then
        (case runCheck w g of
           (Inl e, g') \<Rightarrow>
             if e = ErrIsChecking
             then (Some (HttpError 500 (str ''no available keys or urls, currently rechecking'')), g')
             else (Some (HttpError 500 (Error e)), g')
         | (Inr n, g') \<Rightarrow>
             if keys (saku g') = [] \<and> urls (saku g') = []
             then (Some (HttpError 500 (str ''no available keys and urls'')), g')
             else (None, g'))
      else (None, g))"

text \<open>
  The variable \<open>use\<close> (lines 415 to 427): 0 is a key, 1 is a URL. It is declared in the pass,
  so it is 0 again after each jump; \<open>rand.IntN(2)\<close> is the raw value modulo 2.
\<close>

definition selectFamily :: "bool \<Rightarrow> world \<Rightarrow> safeAliveKeysAndURLs \<Rightarrow> nat" where
  "selectFamily force w p =
     (if \<not> force then
        (if keys p \<noteq> [] \<and> urls p \<noteq> [] then randFamily w mod 2
         else if keys p = [] then 1
         else 0)
      else 0)"

text \<open>
  The end of a pass (lines 493 to 529), after an upstream has answered with \<open>lxResp\<close>.
  \<open>json.Marshal\<close> does not fail on a \<open>deepLXResp\<close>, so the reply is written.
\<close>

definition verify :: "options \<Rightarrow> world \<Rightarrow> deepLXReq \<Rightarrow> nat \<Rightarrow> deepLXResp \<Rightarrow> hstate \<Rightarrow> step \<times> hstate" where
  "verify c w lxReq use lxResp st =
     (if enableCheckContainsChinese c \<and> \<not> containsChinese (isHan c) (Data lxResp) then
        (if use = 1 \<and> keys (saku (shared st)) \<noteq> [] then (Again, st\<lparr>forceUseDeepL := True\<rparr>)
         else
           (case googleTranslate w (lxReq_Text lxReq) (lxReq_SourceLang lxReq) (lxReq_TargetLang lxReq) of
              None \<Rightarrow> (Panicked, noted Google st)
            | Some (Inl e) \<Rightarrow> (Done (Translated lxResp), noted Google st)
            | Some (Inr googleTranslateText) \<Rightarrow>
                (Done (Translated (lxResp\<lparr>Data := googleTranslateText\<rparr>)), noted Google st)))
      else (Done (Translated lxResp), st))"

text \<open>
  A pass from the choice of the family on (lines 415 to 491): the body is decoded, an index
  into the slice of the chosen family is drawn, and the upstream is called. \<open>len\<close> of the
  slice \<open>Translations\<close> is 0 for the nil and for the empty slice.
\<close>

definition dispatch :: "options \<Rightarrow> world \<Rightarrow> gostring \<Rightarrow> hstate \<Rightarrow> step \<times> hstate" where
  "dispatch c w reqBody st =
     (let p = saku (shared st);
          use = selectFamily (forceUseDeepL st) w p
      in
      case jsonDecode c reqBody of
        None \<Rightarrow> (Done (HttpError 400 (str ''invalid request body'')), st)
      | Some lxReq \<Rightarrow>
          if use = 0 then
            (case IntN (randIndex w) (length (keys p)) of
               None \<Rightarrow> (Panicked, st)
             | Some keyIndex \<Rightarrow>
                 (let key = keys p ! keyIndex;
                      lReq = \<lparr>lReq_Text = [lxReq_Text lxReq],
                              lReq_TargetLang = lxReq_TargetLang lxReq,
                              lReq_TagHandling = []\<rparr>;
                      st1 = noted (Post True key) st
                  in
                  case deepLReq_post w lReq key of
                    Inl e \<Rightarrow> (Again, evicted True key st1)
                  | Inr lResp \<Rightarrow>
                      (case Translations lResp of
                         None \<Rightarrow> (Again, st1)
                       | Some [] \<Rightarrow> (Again, st1)
                       | Some (t # ts) \<Rightarrow>
                           verify c w lxReq use
                             \<lparr>Code = 200, ID = 0, Data = tr_Text t, Alternatives = [tr_Text t]\<rparr>
                             st1)))
          else
            (case IntN (randIndex w) (length (urls p)) of
               None \<Rightarrow> (Panicked, st)
             | Some urlIndex \<Rightarrow>
                 (let u = urls p ! urlIndex;
                      st1 = noted (Post False u) st
                  in
                  case deepLXReq_post w lxReq u of
                    Inl e \<Rightarrow> (Again, evicted False u st1)
                  | Inr lxResp \<Rightarrow>
                      if Code lxResp \<noteq> 200 then (Again, evicted False u st1)
                      else verify c w lxReq use lxResp st1)))"

text \<open>One pass from the label \<open>reTranslate\<close>.\<close>

definition attempt :: "options \<Rightarrow> world \<Rightarrow> gostring \<Rightarrow> hstate \<Rightarrow> step \<times> hstate" where
  "attempt c w reqBody st =
     (case refreshIfEmpty w (shared st) of
        (Some resp, g') \<Rightarrow> (Done resp, st\<lparr>shared := g'\<rparr>)
      | (None, g') \<Rightarrow> dispatch c w reqBody (st\<lparr>shared := g'\<rparr>))"

text \<open>
  The jumps back to the label. Nothing bounds their number, so the run is given the answers
  of the outside pass by pass; when they are used up and the last pass has jumped, the
  result is \<open>Again\<close>: the handler has not returned yet.
\<close>

fun reTranslate :: "options \<Rightarrow> world list \<Rightarrow> gostring \<Rightarrow> hstate \<Rightarrow> step \<times> hstate" where
  "reTranslate c [] reqBody st = (Again, st)"
| "reTranslate c (w # ws) reqBody st =
     (case attempt c w reqBody st of
        (Again, st') \<Rightarrow> reTranslate c ws reqBody st'
      | (Done resp, st') \<Rightarrow> (Done resp, st')
      | (Panicked, st') \<Rightarrow> (Panicked, st'))"

text \<open>The handler: \<open>body\<close> is what \<open>io.ReadAll\<close> returns for the request.\<close>

definition handleForward ::
  "options \<Rightarrow> world list \<Rightarrow> err + gostring \<Rightarrow> globals \<Rightarrow> step \<times> hstate" where
  "handleForward c ws body g =
     (case body of
        Inl e \<Rightarrow> (Done (HttpError 500 (Error e)), \<lparr>shared = g, forceUseDeepL = False\<rparr>)
      | Inr reqBody \<Rightarrow> reTranslate c ws reqBody \<lparr>shared = g, forceUseDeepL = False\<rparr>)"

section \<open>Reading the pool, its reachable states, and fixed answers of the outside\<close>

text \<open>The slice that \<open>removeKeyOrURL\<close> selects with \<open>isKey\<close>.\<close>

definition alive :: "bool \<Rightarrow> safeAliveKeysAndURLs \<Rightarrow> gostring list" where
  "alive isKey p = (if isKey then keys p else urls p)"

text \<open>
  The pool is empty when \<open>main\<close> creates it; \<open>runCheck\<close> and \<open>removeKeyOrURL\<close> are the only
  writers.
\<close>

inductive reachable :: "safeAliveKeysAndURLs \<Rightarrow> bool" where
  start: "reachable \<lparr>keys = [], urls = []\<rparr>"
| refresh: "reachable (saku g) \<Longrightarrow> reachable (saku (snd (runCheck w g)))"
| evict: "reachable p \<Longrightarrow> reachable (snd (removeKeyOrURL isKey keyOrURL p))"

text \<open>
  An outside in which the file is missing and every call fails, the shared state at the start
  of \<open>main\<close>, and a reply of DeepL with one translation; concrete runs below vary them.
\<close>

definition world0 :: world where
  "world0 =
     \<lparr>apis = OpenFailed (ErrOther (str ''open apis.txt: no such file or directory'')),
      deepLReq_post = (\<lambda>req key. Inl (ErrOther (str ''EOF''))),
      deepLXReq_post = (\<lambda>req u. Inl (ErrOther (str ''connection refused''))),
      googleTranslate = (\<lambda>sourceText sourceLang targetLang. Some (Inl ErrGoogleTranslateFailed)),
      randFamily = 0,
      randIndex = 0\<rparr>"

definition globals0 :: globals where
  "globals0 = \<lparr>saku = \<lparr>keys = [], urls = []\<rparr>, isChecking = False, calls = []\<rparr>"

definition translated :: "gostring \<Rightarrow> deepLResp" where
  "translated t = \<lparr>Translations = Some [\<lparr>DetectedSourceLang = str ''EN'', tr_Text = t\<rparr>], Message = []\<rparr>"

text \<open>
  The lines of \<open>apis.txt\<close> that the scanner loop keeps: trimmed, and not a comment. A kept
  line is a URL when it begins with \<open>http\<close>.
\<close>

definition kept :: "gostring list \<Rightarrow> gostring list" where
  "kept ls = filter (\<lambda>text. \<not> isComment text) (map TrimSpace ls)"

definition isURL :: "gostring \<Rightarrow> bool" where
  "isURL text = HasPrefix text (str ''http'')"

text \<open>
  A request body with its decoding, the options with the check switched on (and the block
  U+4E00 to U+9FFF of the Han table), an outside in which every upstream answers (DeepL with
  a Chinese text, the DeepLX endpoint with \<open>hello\<close>) and one in which DeepL fails, and
  two pools.
\<close>

definition quoted :: "string \<Rightarrow> string" where
  "quoted s = CHR 0x22 # s @ [CHR 0x22]"

definition body1 :: gostring where
  "body1 = str (''{'' @ quoted ''text'' @ '':'' @ quoted ''hello'' @ '','' @
                quoted ''target_lang'' @ '':'' @ quoted ''ZH'' @ ''}'')"

definition request1 :: deepLXReq where
  "request1 = \<lparr>lxReq_Text = str ''hello'', lxReq_SourceLang = [],
               lxReq_TargetLang = str ''ZH'', lxReq_TagHandling = []\<rparr>"

definition options1 :: options where
  "options1 =
     \<lparr>enableCheckContainsChinese = True,
      isHan = (\<lambda>r. 19968 \<le> r \<and> r \<le> 40959),
      jsonDecode = (\<lambda>reqBody. if reqBody = body1 then Some request1 else None)\<rparr>"

definition worldUp :: world where
  "worldUp =
     \<lparr>apis = Opened [str ''key:fx'', str ''http://u''] None,
      deepLReq_post = (\<lambda>req key. Inr (translated [20320, 22909])),
      deepLXReq_post = (\<lambda>req u. Inr \<lparr>Code = 200, ID = 1, Data = str ''hello'', Alternatives = []\<rparr>),
      googleTranslate = (\<lambda>sourceText sourceLang targetLang. Some (Inr [20320, 22909])),
      randFamily = 1,
      randIndex = 0\<rparr>"

definition worldKeyDown :: world where
  "worldKeyDown = worldUp\<lparr>deepLReq_post := (\<lambda>req key. Inl (ErrOther (str ''EOF'')))\<rparr>"

definition pool1 :: safeAliveKeysAndURLs where
  "pool1 = \<lparr>keys = [str ''key:fx''], urls = [str ''http://u'']\<rparr>"

definition pool2 :: safeAliveKeysAndURLs where
  "pool2 = \<lparr>keys = [str ''key:fx'', str ''key2''], urls = [str ''http://u'']\<rparr>"

text \<open>The equations that concrete runs unfold.\<close>

lemmas fixtures = quoted_def body1_def request1_def options1_def worldUp_def worldKeyDown_def
  pool1_def pool2_def world0_def globals0_def translated_def

text \<open>The equations that a concrete run of the handler unfolds.\<close>

lemmas run_defs = handleForward_def attempt_def refreshIfEmpty_def dispatch_def selectFamily_def
  verify_def containsChinese_def IntN_def noted_def evicted_def removeKeyOrURL_def swapRemove_def
  str_def Let_def

text \<open>
  A request for English with its decoding, and an outside whose endpoint answers with an
  English text that holds one Han character (U+4F60).
\<close>

definition bodyEN :: gostring where
  "bodyEN = str (''{'' @ quoted ''text'' @ '':'' @ quoted ''bonjour'' @ '','' @
                 quoted ''target_lang'' @ '':'' @ quoted ''EN'' @ ''}'')"

definition requestEN :: deepLXReq where
  "requestEN = \<lparr>lxReq_Text = str ''bonjour'', lxReq_SourceLang = [],
                lxReq_TargetLang = str ''EN'', lxReq_TagHandling = []\<rparr>"

definition optionsEN :: options where
  "optionsEN = options1\<lparr>jsonDecode := (\<lambda>reqBody. if reqBody = bodyEN then Some requestEN else None)\<rparr>"

definition worldMixed :: world where
  "worldMixed =
     worldUp\<lparr>deepLXReq_post :=
        (\<lambda>req u. Inr \<lparr>Code = 200, ID = 1, Data = str ''hello '' @ [20320], Alternatives = []\<rparr>)\<rparr>"

lemmas fixturesEN = bodyEN_def requestEN_def optionsEN_def worldMixed_def

text \<open>The calls that a refresh makes.\<close>

fun isProbe :: "netcall \<Rightarrow> bool" where
  "isProbe (Probe isKey keyOrURL) = True"
| "isProbe (Post isKey keyOrURL) = False"
| "isProbe Google = False"

section \<open>Eviction\<close>

lemma firstIndex_None: "firstIndex x xs = None \<longleftrightarrow> x \<notin> set xs"
  by (induction xs) auto

lemma firstIndex_Some: "firstIndex x xs = Some i \<Longrightarrow> i < length xs \<and> xs ! i = x"
  by (induction xs arbitrary: i) (auto split: if_splits)

lemma mset_swapRemove:
  assumes "i < length xs"
  shows "mset (swapRemove i xs) = mset xs - {#xs ! i#}"
proof -
  from assms have ne: "xs \<noteq> []" by auto
  then obtain ys y where xs: "xs = ys @ [y]" by (metis append_butlast_last_id)
  show ?thesis
  proof (cases "i < length ys")
    case True
    then show ?thesis
      by (simp add: xs swapRemove_def list_update_append nth_append mset_update)
  next
    case False
    with assms xs have "i = length ys" by simp
    then show ?thesis by (simp add: xs swapRemove_def)
  qed
qed

lemma removeKeyOrURL_alt:
  "removeKeyOrURL isKey x p =
     (case firstIndex x (alive isKey p) of
        None \<Rightarrow> (False, p)
      | Some i \<Rightarrow> (True, if isKey then p\<lparr>keys := swapRemove i (alive isKey p)\<rparr>
                         else p\<lparr>urls := swapRemove i (alive isKey p)\<rparr>))"
  by (simp add: removeKeyOrURL_def alive_def Let_def split: option.split)

lemma removeKeyOrURL_fst: "fst (removeKeyOrURL isKey x p) = (x \<in> set (alive isKey p))"
proof (cases "firstIndex x (alive isKey p)")
  case None
  then show ?thesis by (simp add: removeKeyOrURL_alt firstIndex_None[symmetric])
next
  case (Some i)
  then have "x \<in> set (alive isKey p)"
    using firstIndex_None[of x "alive isKey p"] by simp
  with Some show ?thesis by (simp add: removeKeyOrURL_alt)
qed

lemma removeKeyOrURL_absent:
  "x \<notin> set (alive isKey p) \<Longrightarrow> removeKeyOrURL isKey x p = (False, p)"
  by (simp add: removeKeyOrURL_alt firstIndex_None[symmetric])

lemma alive_removeKeyOrURL_same:
  "mset (alive isKey (snd (removeKeyOrURL isKey x p))) = mset (alive isKey p) - {#x#}"
proof (cases "firstIndex x (alive isKey p)")
  case None
  then have absent: "x \<notin> set (alive isKey p)" by (simp add: firstIndex_None)
  then have "x \<notin># mset (alive isKey p)" by (simp only: set_mset_mset not_False_eq_True)
  then have d: "mset (alive isKey p) - {#x#} = mset (alive isKey p)" by (rule diff_single_trivial)
  have "snd (removeKeyOrURL isKey x p) = p"
    by (simp only: removeKeyOrURL_absent[OF absent] snd_conv)
  then have "mset (alive isKey (snd (removeKeyOrURL isKey x p))) = mset (alive isKey p)"
    by (rule arg_cong)
  also have "\<dots> = mset (alive isKey p) - {#x#}" by (rule d[symmetric])
  finally show ?thesis .
next
  case (Some i)
  note hit = firstIndex_Some[OF Some]
  from hit have "mset (swapRemove i (alive isKey p)) = mset (alive isKey p) - {#alive isKey p ! i#}"
    by (intro mset_swapRemove) simp
  with hit have "mset (swapRemove i (alive isKey p)) = mset (alive isKey p) - {#x#}"
    by simp
  with Some show ?thesis
    by (cases isKey) (simp_all add: removeKeyOrURL_alt alive_def)
qed

lemma alive_removeKeyOrURL_other:
  "alive (\<not> isKey) (snd (removeKeyOrURL isKey x p)) = alive (\<not> isKey) p"
  by (simp add: removeKeyOrURL_alt alive_def split: option.splits)

lemma alive_removeKeyOrURL_subset:
  "set (alive b (snd (removeKeyOrURL isKey x p))) \<subseteq> set (alive b p)"
proof (cases "b = isKey")
  case True
  have "set_mset (mset (alive isKey p) - {#x#}) \<subseteq> set_mset (mset (alive isKey p))"
    by (meson in_diffD subsetI)
  then have "set_mset (mset (alive isKey (snd (removeKeyOrURL isKey x p))))
               \<subseteq> set_mset (mset (alive isKey p))"
    by (simp only: alive_removeKeyOrURL_same)
  with True show ?thesis by simp
next
  case False
  then have "b = (\<not> isKey)" by simp
  then show ?thesis by (simp only: alive_removeKeyOrURL_other subset_refl)
qed

lemma distinct_iff_count_le_1: "distinct xs \<longleftrightarrow> (\<forall>a. count (mset xs) a \<le> 1)"
proof
  assume "distinct xs"
  then have eq: "\<forall>a. count (mset xs) a = (if a \<in> set xs then 1 else 0)"
    by (rule distinct_count_atmost_1[THEN iffD1])
  show "\<forall>a. count (mset xs) a \<le> 1"
  proof
    fix a
    from eq have "count (mset xs) a = (if a \<in> set xs then 1 else 0)" by (rule spec)
    moreover have "(if a \<in> set xs then 1 else 0) \<le> (1::nat)" by simp
    ultimately show "count (mset xs) a \<le> 1" by (simp only:)
  qed
next
  assume le: "\<forall>a. count (mset xs) a \<le> 1"
  have "\<forall>a. count (mset xs) a = (if a \<in> set xs then 1 else 0)"
  proof
    fix a
    show "count (mset xs) a = (if a \<in> set xs then 1 else 0)"
    proof (cases "a \<in> set xs")
      case True
      then have "count (mset xs) a \<noteq> 0" by simp
      moreover from le have "count (mset xs) a \<le> 1" by (rule spec)
      ultimately have "count (mset xs) a = 1" by linarith
      with True show ?thesis by simp
    next
      case False
      then have "count (mset xs) a = 0" by simp
      with False show ?thesis by simp
    qed
  qed
  then show "distinct xs" by (rule distinct_count_atmost_1[THEN iffD2])
qed

lemma alive_removeKeyOrURL_distinct:
  assumes "distinct (alive b p)"
  shows "distinct (alive b (snd (removeKeyOrURL isKey x p)))"
proof (cases "b = isKey")
  case True
  have "count (mset (alive isKey (snd (removeKeyOrURL isKey x p)))) a
          \<le> count (mset (alive isKey p)) a" for a
    by (simp add: alive_removeKeyOrURL_same)
  moreover from assms True have "count (mset (alive isKey p)) a \<le> 1" for a
    by (simp add: distinct_iff_count_le_1)
  ultimately have "count (mset (alive isKey (snd (removeKeyOrURL isKey x p)))) a \<le> 1" for a
    using le_trans by blast
  then have "distinct (alive isKey (snd (removeKeyOrURL isKey x p)))"
    by (simp add: distinct_iff_count_le_1)
  with True show ?thesis by simp
next
  case False
  then have "b = (\<not> isKey)" by simp
  with assms show ?thesis by (simp only: alive_removeKeyOrURL_other)
qed

text \<open>
  C5 does not hold as stated: a slice can hold an upstream twice (the configured list is
  copied with its repeated lines), the loop removes the first occurrence only, and the
  second eviction returns true again.
\<close>

theorem evict_twice_counterexample:
  "fst (removeKeyOrURL True (str ''k'') \<lparr>keys = [str ''k'', str ''k''], urls = []\<rparr>)
   \<and> fst (removeKeyOrURL True (str ''k'')
        (snd (removeKeyOrURL True (str ''k'') \<lparr>keys = [str ''k'', str ''k''], urls = []\<rparr>)))"
  by (simp add: removeKeyOrURL_def swapRemove_def)

text \<open>
  C5, amended: when the upstream occurs exactly once in the slice of its family, evicting it
  twice in a row returns true and then false; evicting an upstream that is absent returns
  false and leaves the pool as it is.
\<close>

theorem evict_twice:
  "(count (mset (alive isKey p)) x = 1 \<longrightarrow>
      fst (removeKeyOrURL isKey x p) \<and>
      \<not> fst (removeKeyOrURL isKey x (snd (removeKeyOrURL isKey x p))))
   \<and> (x \<notin> set (alive isKey p) \<longrightarrow> removeKeyOrURL isKey x p = (False, p))"
proof (intro conjI impI)
  assume one: "count (mset (alive isKey p)) x = 1"
  then have "x \<in> set (alive isKey p)"
    by (metis count_mset_0_iff zero_neq_one)
  then show "fst (removeKeyOrURL isKey x p)" by (simp add: removeKeyOrURL_fst)
  from one have "count (mset (alive isKey (snd (removeKeyOrURL isKey x p)))) x = 0"
    by (simp add: alive_removeKeyOrURL_same)
  then have "x \<notin> set (alive isKey (snd (removeKeyOrURL isKey x p)))"
    by (simp add: count_mset_0_iff)
  then show "\<not> fst (removeKeyOrURL isKey x (snd (removeKeyOrURL isKey x p)))"
    by (simp add: removeKeyOrURL_fst)
next
  assume "x \<notin> set (alive isKey p)"
  then show "removeKeyOrURL isKey x p = (False, p)" by (rule removeKeyOrURL_absent)
qed

theorem evict_twice_witness:
  "count (mset (alive True \<lparr>keys = [str ''a'', str ''b''], urls = [str ''http://u'']\<rparr>)) (str ''a'') = 1
   \<and> fst (removeKeyOrURL True (str ''a'') \<lparr>keys = [str ''a'', str ''b''], urls = [str ''http://u'']\<rparr>)
   \<and> \<not> fst (removeKeyOrURL True (str ''a'')
             (snd (removeKeyOrURL True (str ''a'') \<lparr>keys = [str ''a'', str ''b''], urls = [str ''http://u'']\<rparr>)))
   \<and> str ''c'' \<notin> set (alive True \<lparr>keys = [str ''a'', str ''b''], urls = [str ''http://u'']\<rparr>)
   \<and> removeKeyOrURL True (str ''c'') \<lparr>keys = [str ''a'', str ''b''], urls = [str ''http://u'']\<rparr>
       = (False, \<lparr>keys = [str ''a'', str ''b''], urls = [str ''http://u'']\<rparr>)"
proof -
  let ?p = "\<lparr>keys = [str ''a'', str ''b''], urls = [str ''http://u'']\<rparr>"
  have h1: "count (mset (alive True ?p)) (str ''a'') = 1"
    by (simp add: alive_def str_def)
  have h2: "str ''c'' \<notin> set (alive True ?p)"
    by (simp add: alive_def str_def)
  note a = evict_twice[of True ?p "str ''a''", THEN conjunct1, THEN mp, OF h1]
  note c = evict_twice[of True ?p "str ''c''", THEN conjunct2, THEN mp, OF h2]
  show ?thesis
    by (intro conjI) (rule h1, rule a[THEN conjunct1], rule a[THEN conjunct2], rule h2, rule c)
qed

section \<open>Reading the configured list: what is kept\<close>

lemma scanLines_eq:
  "scanLines ls (ks, us, e) =
     (ks @ filter (\<lambda>t. \<not> isURL t) (kept ls), us @ filter isURL (kept ls), e \<and> kept ls = [])"
  by (induction ls arbitrary: ks us e) (simp_all add: Let_def kept_def isURL_def)

lemma parseKeysAndURLs_Opened:
  "parseKeysAndURLs (Opened ls scanErr) =
     (if kept ls = [] then Inl ErrApisEmpty
      else case scanErr of
             Some e \<Rightarrow> Inl e
           | None \<Rightarrow> Inr (filter (\<lambda>t. \<not> isURL t) (kept ls), filter isURL (kept ls)))"
  by (simp add: parseKeysAndURLs_def scanLines_eq)

lemma parseKeysAndURLs_Inr:
  assumes "parseKeysAndURLs f = Inr (ks, us)"
  shows "\<exists>ls. f = Opened ls None \<and> kept ls \<noteq> [] \<and>
           ks = filter (\<lambda>t. \<not> isURL t) (kept ls) \<and> us = filter isURL (kept ls)"
proof (cases f)
  case (OpenFailed e)
  with assms show ?thesis by (simp add: parseKeysAndURLs_def)
next
  case (Opened ls scanErr)
  with assms show ?thesis
    by (auto simp: parseKeysAndURLs_Opened split: if_splits option.splits)
qed

lemma dropWhile_all: "list_all P l \<Longrightarrow> dropWhile P l = []"
  by (induction l) simp_all

lemma TrimSpace_blank:
  assumes "list_all IsSpace l"
  shows "TrimSpace l = []"
proof -
  from assms have blank: "dropWhile IsSpace l = []" by (rule dropWhile_all)
  show ?thesis unfolding TrimSpace_def blank by simp
qed

lemma not_isComment_Nil: "\<not> isComment []"
  by (simp add: isComment_def HasPrefix_def str_def)

lemma not_isURL_Nil: "\<not> isURL []"
  by (simp add: isURL_def HasPrefix_def str_def)

text \<open>
  C6 does not hold as stated: a blank line is not a comment. The loop clears \<open>isEmpty\<close> for
  it and appends the empty string to \<open>keys\<close>, so a file of one blank line parses, with one
  (empty) credential.
\<close>

theorem parse_blank_line_counterexample:
  "parseKeysAndURLs (Opened [str ''  ''] None) = Inr ([[]], [])"
  by (simp add: parseKeysAndURLs_def TrimSpace_def IsSpace_def str_def isComment_def HasPrefix_def)

text \<open>
  C6, amended: with the file opened and read without error, parsing fails with the error
  of the empty file exactly when no trimmed line outside the comments is left; otherwise
  it returns these lines, those that begin with \<open>http\<close> as endpoints and the others as
  credentials, in the order of the file, and the two lists together hold exactly these
  lines. A line of white space only is kept, as the empty credential.
\<close>

theorem parse_lines:
  "(parseKeysAndURLs (Opened ls None) = Inl ErrApisEmpty \<longleftrightarrow> kept ls = [])
   \<and> (kept ls \<noteq> [] \<longrightarrow>
        parseKeysAndURLs (Opened ls None)
          = Inr (filter (\<lambda>text. \<not> HasPrefix text (str ''http'')) (kept ls),
                 filter (\<lambda>text. HasPrefix text (str ''http'')) (kept ls)))
   \<and> (\<forall>ks us. parseKeysAndURLs (Opened ls None) = Inr (ks, us) \<longrightarrow> mset (ks @ us) = mset (kept ls))
   \<and> (list_all IsSpace l \<longrightarrow> parseKeysAndURLs (Opened [l] None) = Inr ([[]], []))"
proof (intro conjI impI allI)
  show "parseKeysAndURLs (Opened ls None) = Inl ErrApisEmpty \<longleftrightarrow> kept ls = []"
    by (simp add: parseKeysAndURLs_Opened)
next
  assume "kept ls \<noteq> []"
  then show "parseKeysAndURLs (Opened ls None)
          = Inr (filter (\<lambda>text. \<not> HasPrefix text (str ''http'')) (kept ls),
                 filter (\<lambda>text. HasPrefix text (str ''http'')) (kept ls))"
    by (simp add: parseKeysAndURLs_Opened isURL_def[abs_def])
next
  fix ks us
  assume "parseKeysAndURLs (Opened ls None) = Inr (ks, us)"
  then have "ks = filter (\<lambda>t. \<not> isURL t) (kept ls)" "us = filter isURL (kept ls)"
    by (auto simp: parseKeysAndURLs_Opened split: if_splits)
  then show "mset (ks @ us) = mset (kept ls)"
    by (simp add: union_commute)
next
  assume "list_all IsSpace l"
  then have "TrimSpace l = []" by (rule TrimSpace_blank)
  then have "kept [l] = [[]]" by (simp add: kept_def not_isComment_Nil)
  then show "parseKeysAndURLs (Opened [l] None) = Inr ([[]], [])"
    by (simp add: parseKeysAndURLs_Opened not_isURL_Nil)
qed


theorem parse_lines_witness:
  "kept [str '' # c'', str ''http://a '', str ''key:fx'', str ''''] \<noteq> []
   \<and> parseKeysAndURLs (Opened [str '' # c'', str ''http://a '', str ''key:fx'', str ''''] None)
       = Inr ([str ''key:fx'', []], [str ''http://a''])
   \<and> list_all IsSpace (str ''  '')
   \<and> parseKeysAndURLs (Opened [str ''  ''] None) = Inr ([[]], [])"
proof -
  let ?ls = "[str '' # c'', str ''http://a '', str ''key:fx'', str '''']"
  have k: "kept ?ls = [str ''http://a'', str ''key:fx'', []]"
    by (simp add: kept_def TrimSpace_def IsSpace_def str_def isComment_def HasPrefix_def)
  then have ne: "kept ?ls \<noteq> []" by simp
  have blank: "list_all IsSpace (str ''  '')"
    by (simp add: IsSpace_def str_def)
  note p = parse_lines[of ?ls "str ''  ''"]
  from p ne have "parseKeysAndURLs (Opened ?ls None)
          = Inr (filter (\<lambda>text. \<not> HasPrefix text (str ''http'')) (kept ?ls),
                 filter (\<lambda>text. HasPrefix text (str ''http'')) (kept ?ls))"
    by blast
  then have a: "parseKeysAndURLs (Opened ?ls None) = Inr ([str ''key:fx'', []], [str ''http://a''])"
    unfolding k by (simp add: HasPrefix_def str_def)
  from p blank have b: "parseKeysAndURLs (Opened [str ''  ''] None) = Inr ([[]], [])"
    by blast
  from ne a blank b show ?thesis by (intro conjI)
qed

section \<open>Probing an account\<close>

lemma checkAlive_no_error: "snd (checkAlive w isKey keyOrURL) = None"
  by (simp add: checkAlive_def split: sum.splits)

lemma checkAlive_key:
  "fst (checkAlive w True key) \<longleftrightarrow>
     (\<exists>lResp. deepLReq_post w
                \<lparr>lReq_Text = [str ''test''], lReq_TargetLang = str ''zh'', lReq_TagHandling = []\<rparr> key
              = Inr lResp \<and> Translations lResp \<noteq> None)"
  by (auto simp: checkAlive_def split: sum.splits)

text \<open>
  C8 at a reply whose field \<open>translations\<close> is the empty array: the decoded slice is empty
  and not nil, \<open>checkAlive\<close> compares it with nil only, and the upstream with no translation
  entry is classified alive. The handler measures the length instead: for the same reply
  of the same key it jumps back, as after a failure.
\<close>

theorem checkAlive_empty_translations:
  "checkAlive (world0\<lparr>deepLReq_post := (\<lambda>req key. Inr \<lparr>Translations = Some [], Message = []\<rparr>)\<rparr>)
     True (str ''key:fx'') = (True, None)
   \<and> fst (dispatch options1
           (world0\<lparr>deepLReq_post := (\<lambda>req key. Inr \<lparr>Translations = Some [], Message = []\<rparr>)\<rparr>)
           body1 \<lparr>shared = globals0\<lparr>saku := \<lparr>keys = [str ''key:fx''], urls = []\<rparr>\<rparr>,
                  forceUseDeepL = False\<rparr>) = Again"
  by (simp add: checkAlive_def dispatch_def selectFamily_def IntN_def Let_def
        options1_def world0_def globals0_def noted_def)

theorem checkAlive_empty_translations_witness:
  "fst (checkAlive (world0\<lparr>deepLReq_post := (\<lambda>req key. Inr \<lparr>Translations = Some [], Message = []\<rparr>)\<rparr>)
          True (str ''key:fx''))"
  using checkAlive_empty_translations by simp

section \<open>The refresh and its flag\<close>

lemma runCheck_busy: "isChecking g \<Longrightarrow> runCheck w g = (Inl ErrIsChecking, g)"
  by (simp add: runCheck_def)

lemma runCheck_failed:
  "\<not> isChecking g \<Longrightarrow> parseKeysAndURLs (apis w) = Inl e \<Longrightarrow> runCheck w g = (Inl e, g)"
  by (simp add: runCheck_def)

lemma runCheck_done:
  "\<not> isChecking g \<Longrightarrow> parseKeysAndURLs (apis w) = Inr (ks, us) \<Longrightarrow>
   runCheck w g =
     (Inr (length ks, length us),
      g\<lparr>saku := \<lparr>keys = filter (probedAlive w True) ks, urls = filter (probedAlive w False) us\<rparr>,
        calls := calls g @ map (Probe True) ks @ map (Probe False) us\<rparr>)"
  by (simp add: runCheck_def Let_def)

text \<open>
  C9: called with the flag set, \<open>runCheck\<close> returns \<open>errIsChecking\<close> and the state is the
  one it was given (both slices and the flag); called with the flag clear, it leaves with
  the flag clear, on the path where reading the configuration fails in particular.
\<close>

theorem runCheck_flag:
  "(isChecking g \<longrightarrow> runCheck w g = (Inl ErrIsChecking, g))
   \<and> (\<not> isChecking g \<longrightarrow> \<not> isChecking (snd (runCheck w g)))
   \<and> (\<not> isChecking g \<and> parseKeysAndURLs (apis w) = Inl e \<longrightarrow>
        fst (runCheck w g) = Inl e \<and> \<not> isChecking (snd (runCheck w g)))"
proof -
  have busy: "isChecking g \<longrightarrow> runCheck w g = (Inl ErrIsChecking, g)"
    by (simp add: runCheck_busy)
  have cleared: "\<not> isChecking (snd (runCheck w g))" if free: "\<not> isChecking g"
  proof (cases "parseKeysAndURLs (apis w)")
    case (Inl e)
    with free show ?thesis by (simp add: runCheck_failed)
  next
    case (Inr r)
    then obtain ks us where "parseKeysAndURLs (apis w) = Inr (ks, us)" by (cases r) simp
    with free show ?thesis by (simp add: runCheck_done)
  qed
  have failed: "fst (runCheck w g) = Inl e \<and> \<not> isChecking (snd (runCheck w g))"
    if a: "\<not> isChecking g \<and> parseKeysAndURLs (apis w) = Inl e"
  proof -
    from a have "runCheck w g = (Inl e, g)" by (simp add: runCheck_failed)
    with a show ?thesis by simp
  qed
  from busy cleared failed show ?thesis by blast
qed

theorem runCheck_flag_witness:
  "isChecking (globals0\<lparr>isChecking := True\<rparr>)
   \<and> runCheck world0 (globals0\<lparr>isChecking := True\<rparr>)
       = (Inl ErrIsChecking, globals0\<lparr>isChecking := True\<rparr>)
   \<and> \<not> isChecking globals0
   \<and> \<not> isChecking (snd (runCheck world0 globals0))
   \<and> parseKeysAndURLs (apis world0)
       = Inl (ErrOther (str ''open apis.txt: no such file or directory''))
   \<and> fst (runCheck world0 globals0)
       = Inl (ErrOther (str ''open apis.txt: no such file or directory''))"
proof -
  let ?e = "ErrOther (str ''open apis.txt: no such file or directory'')"
  have set: "isChecking (globals0\<lparr>isChecking := True\<rparr>)" by simp
  have free: "\<not> isChecking globals0" by (simp add: globals0_def)
  have unread: "parseKeysAndURLs (apis world0) = Inl ?e"
    by (simp add: world0_def parseKeysAndURLs_def)
  note busy = runCheck_flag[of "globals0\<lparr>isChecking := True\<rparr>" world0 ?e]
  note idle = runCheck_flag[of globals0 world0 ?e]
  from busy set have a: "runCheck world0 (globals0\<lparr>isChecking := True\<rparr>)
       = (Inl ErrIsChecking, globals0\<lparr>isChecking := True\<rparr>)" by blast
  from idle free have b: "\<not> isChecking (snd (runCheck world0 globals0))" by blast
  from idle free unread have c: "fst (runCheck world0 globals0) = Inl ?e" by blast
  from set a free b unread c show ?thesis by (intro conjI)
qed

section \<open>The invariant of the pool\<close>

lemma runCheck_saku:
  "saku (snd (runCheck w g)) = saku g \<or>
   (\<exists>ks us. parseKeysAndURLs (apis w) = Inr (ks, us) \<and>
      saku (snd (runCheck w g))
        = \<lparr>keys = filter (probedAlive w True) ks, urls = filter (probedAlive w False) us\<rparr>)"
proof (cases "isChecking g")
  case True
  then show ?thesis by (simp add: runCheck_busy)
next
  case False
  show ?thesis
  proof (cases "parseKeysAndURLs (apis w)")
    case (Inl e)
    with False show ?thesis by (simp add: runCheck_failed)
  next
    case (Inr r)
    then obtain ks us where "parseKeysAndURLs (apis w) = Inr (ks, us)" by (cases r) simp
    with False show ?thesis by (simp add: runCheck_done)
  qed
qed

lemma reachable_families:
  "reachable p \<Longrightarrow> (\<forall>k\<in>set (keys p). \<not> isURL k) \<and> (\<forall>u\<in>set (urls p). isURL u)"
proof (induction rule: reachable.induct)
  case start
  then show ?case by simp
next
  case (refresh g w)
  from runCheck_saku[of w g] show ?case
  proof
    assume "saku (snd (runCheck w g)) = saku g"
    with refresh.IH show ?thesis by simp
  next
    assume "\<exists>ks us. parseKeysAndURLs (apis w) = Inr (ks, us) \<and>
      saku (snd (runCheck w g))
        = \<lparr>keys = filter (probedAlive w True) ks, urls = filter (probedAlive w False) us\<rparr>"
    then obtain ks us where p: "parseKeysAndURLs (apis w) = Inr (ks, us)"
      and s: "saku (snd (runCheck w g))
        = \<lparr>keys = filter (probedAlive w True) ks, urls = filter (probedAlive w False) us\<rparr>"
      by blast
    from parseKeysAndURLs_Inr[OF p] obtain ls where
      "ks = filter (\<lambda>t. \<not> isURL t) (kept ls)" "us = filter isURL (kept ls)" by blast
    with s show ?thesis by simp
  qed
next
  case (evict p isKey keyOrURL)
  have "set (keys (snd (removeKeyOrURL isKey keyOrURL p))) \<subseteq> set (keys p)"
    using alive_removeKeyOrURL_subset[of True isKey keyOrURL p] by (simp add: alive_def)
  moreover have "set (urls (snd (removeKeyOrURL isKey keyOrURL p))) \<subseteq> set (urls p)"
    using alive_removeKeyOrURL_subset[of False isKey keyOrURL p] by (simp add: alive_def)
  ultimately show ?case using evict.IH by blast
qed

text \<open>
  C4 does not hold as stated: nothing removes repeated lines, so the refresh from a file
  with the same credential on two lines reaches a pool that holds it twice.
\<close>

theorem pool_duplicate_counterexample:
  "reachable \<lparr>keys = [str ''k'', str ''k''], urls = []\<rparr>
   \<and> \<not> distinct (keys \<lparr>keys = [str ''k'', str ''k''], urls = []\<rparr>)"
proof -
  let ?w = "world0\<lparr>apis := Opened [str ''k'', str ''k''] None,
                   deepLReq_post := (\<lambda>req key. Inr (translated [27979, 35797]))\<rparr>"
  have "reachable (saku globals0)"
    by (simp add: globals0_def reachable.start)
  then have "reachable (saku (snd (runCheck ?w globals0)))"
    by (rule reachable.refresh)
  moreover have "saku (snd (runCheck ?w globals0)) = \<lparr>keys = [str ''k'', str ''k''], urls = []\<rparr>"
    by (simp add: runCheck_def globals0_def parseKeysAndURLs_def TrimSpace_def IsSpace_def
          isComment_def HasPrefix_def str_def probedAlive_def checkAlive_def translated_def Let_def)
  ultimately show ?thesis by simp
qed

text \<open>
  C4, amended: in every reachable state of the pool no upstream is in both slices; a
  refresh from a configured list whose kept lines are pairwise different gives slices
  without repetition; an eviction keeps a slice without repetition so. (The reachable
  states are closed under the handler, see \<open>handleForward_reachable\<close> at the end.)
\<close>

theorem pool_invariant:
  "(reachable p \<longrightarrow> set (keys p) \<inter> set (urls p) = {})
   \<and> (apis w = Opened ls None \<and> distinct (kept ls) \<and> runCheck w g = (Inr n, g') \<longrightarrow>
        distinct (keys (saku g')) \<and> distinct (urls (saku g')))
   \<and> (distinct (alive b p) \<longrightarrow> distinct (alive b (snd (removeKeyOrURL isKey keyOrURL p))))"
proof -
  have disjoint: "set (keys p) \<inter> set (urls p) = {}" if "reachable p"
    using reachable_families[OF that] by blast
  have fresh: "distinct (keys (saku g')) \<and> distinct (urls (saku g'))"
    if a: "apis w = Opened ls None \<and> distinct (kept ls) \<and> runCheck w g = (Inr n, g')"
  proof -
    from a have free: "\<not> isChecking g"
      by (auto simp: runCheck_busy)
    from a free have ne: "kept ls \<noteq> []"
      by (auto simp: runCheck_def parseKeysAndURLs_Opened split: if_splits)
    with a have "parseKeysAndURLs (apis w)
        = Inr (filter (\<lambda>t. \<not> isURL t) (kept ls), filter isURL (kept ls))"
      by (simp add: parseKeysAndURLs_Opened)
    from runCheck_done[OF free this] a show ?thesis by auto
  qed
  have evict: "distinct (alive b (snd (removeKeyOrURL isKey keyOrURL p)))" if "distinct (alive b p)"
    using that by (rule alive_removeKeyOrURL_distinct)
  from disjoint fresh evict show ?thesis by blast
qed

lemma runCheck_worldUp:
  "runCheck worldUp globals0 =
     (Inr (1, 1),
      globals0\<lparr>saku := pool1, calls := [Probe True (str ''key:fx''), Probe False (str ''http://u'')]\<rparr>)"
  by (simp add: fixtures runCheck_def parseKeysAndURLs_def TrimSpace_def IsSpace_def
        isComment_def HasPrefix_def str_def probedAlive_def checkAlive_def Let_def)

lemma kept_worldUp: "kept [str ''key:fx'', str ''http://u''] = [str ''key:fx'', str ''http://u'']"
  by (simp add: kept_def TrimSpace_def IsSpace_def isComment_def HasPrefix_def str_def)

theorem pool_invariant_witness:
  "reachable pool1
   \<and> set (keys pool1) \<inter> set (urls pool1) = {}
   \<and> apis worldUp = Opened [str ''key:fx'', str ''http://u''] None
   \<and> distinct (kept [str ''key:fx'', str ''http://u''])
   \<and> runCheck worldUp globals0 =
         (Inr (1, 1),
          globals0\<lparr>saku := pool1,
                   calls := [Probe True (str ''key:fx''), Probe False (str ''http://u'')]\<rparr>)
   \<and> distinct (keys pool1) \<and> distinct (urls pool1)
   \<and> distinct (alive True pool1)
   \<and> distinct (alive True (snd (removeKeyOrURL True (str ''key:fx'') pool1)))"
proof -
  let ?g' = "globals0\<lparr>saku := pool1,
                   calls := [Probe True (str ''key:fx''), Probe False (str ''http://u'')]\<rparr>"
  have "reachable (saku globals0)"
    by (simp add: globals0_def reachable.start)
  then have "reachable (saku (snd (runCheck worldUp globals0)))"
    by (rule reachable.refresh)
  then have r: "reachable pool1" by (simp add: runCheck_worldUp)
  have a: "apis worldUp = Opened [str ''key:fx'', str ''http://u''] None"
    by (simp add: worldUp_def)
  have d: "distinct (kept [str ''key:fx'', str ''http://u''])"
    unfolding kept_worldUp by (simp add: str_def)
  have d2: "distinct (alive True pool1)"
    by (simp add: alive_def pool1_def str_def)
  note inv = pool_invariant[of pool1 worldUp "[str ''key:fx'', str ''http://u'']" globals0 "(1, 1)" ?g'
      True True "str ''key:fx''"]
  from inv r have c1: "set (keys pool1) \<inter> set (urls pool1) = {}" by blast
  from inv a d runCheck_worldUp have "distinct (keys (saku ?g')) \<and> distinct (urls (saku ?g'))"
    by blast
  then have c2: "distinct (keys pool1) \<and> distinct (urls pool1)" by simp
  from inv d2 have c3: "distinct (alive True (snd (removeKeyOrURL True (str ''key:fx'') pool1)))"
    by blast
  from r c1 a d runCheck_worldUp c2 d2 c3 show ?thesis by (intro conjI) simp_all
qed


section \<open>The top of a pass\<close>

lemma attempt_nonempty:
  "keys (saku (shared st)) \<noteq> [] \<or> urls (saku (shared st)) \<noteq> [] \<Longrightarrow>
   attempt c w reqBody st = dispatch c w reqBody st"
  by (auto simp: attempt_def refreshIfEmpty_def)

lemma attempt_empty:
  "keys (saku (shared st)) = [] \<Longrightarrow> urls (saku (shared st)) = [] \<Longrightarrow>
   attempt c w reqBody st =
     (case runCheck w (shared st) of
        (Inl e, g') \<Rightarrow>
          (Done (HttpError 500
                   (if e = ErrIsChecking then str ''no available keys or urls, currently rechecking''
                    else Error e)),
           st\<lparr>shared := g'\<rparr>)
      | (Inr n, g') \<Rightarrow>
          if keys (saku g') = [] \<and> urls (saku g') = []
          then (Done (HttpError 500 (str ''no available keys and urls'')), st\<lparr>shared := g'\<rparr>)
          else dispatch c w reqBody (st\<lparr>shared := g'\<rparr>))"
  by (auto simp: attempt_def refreshIfEmpty_def split: prod.splits sum.splits)

text \<open>
  C3: a pass that starts with both slices empty calls \<open>runCheck\<close> before anything else. When
  that returns \<open>errIsChecking\<close> the request ends with the busy message, when it returns
  another error the request ends with that error's message, when it succeeds and both slices
  are still empty the request ends with the message that nothing is available (status 500 in
  the three cases), and otherwise the pass goes on to the choice of the family, on the
  refreshed pool.
\<close>

theorem pool_exhaustion:
  assumes "keys (saku (shared st)) = []" and "urls (saku (shared st)) = []"
  shows
    "(runCheck w (shared st) = (Inl ErrIsChecking, g') \<longrightarrow>
        attempt c w reqBody st =
          (Done (HttpError 500 (str ''no available keys or urls, currently rechecking'')),
           st\<lparr>shared := g'\<rparr>))
     \<and> (runCheck w (shared st) = (Inl e, g') \<and> e \<noteq> ErrIsChecking \<longrightarrow>
        attempt c w reqBody st = (Done (HttpError 500 (Error e)), st\<lparr>shared := g'\<rparr>))
     \<and> (runCheck w (shared st) = (Inr n, g') \<and> keys (saku g') = [] \<and> urls (saku g') = [] \<longrightarrow>
        attempt c w reqBody st =
          (Done (HttpError 500 (str ''no available keys and urls'')), st\<lparr>shared := g'\<rparr>))
     \<and> (runCheck w (shared st) = (Inr n, g') \<and> \<not> (keys (saku g') = [] \<and> urls (saku g') = []) \<longrightarrow>
        attempt c w reqBody st = dispatch c w reqBody (st\<lparr>shared := g'\<rparr>))"
  using assms by (simp add: attempt_empty)

theorem pool_exhaustion_witness:
  "keys (saku globals0) = [] \<and> urls (saku globals0) = []
   \<and> attempt options1 worldUp body1 \<lparr>shared = globals0\<lparr>isChecking := True\<rparr>, forceUseDeepL = False\<rparr>
       = (Done (HttpError 500 (str ''no available keys or urls, currently rechecking'')),
          \<lparr>shared = globals0\<lparr>isChecking := True\<rparr>, forceUseDeepL = False\<rparr>)
   \<and> attempt options1 world0 body1 \<lparr>shared = globals0, forceUseDeepL = False\<rparr>
       = (Done (HttpError 500 (str ''open apis.txt: no such file or directory'')),
          \<lparr>shared = globals0, forceUseDeepL = False\<rparr>)
   \<and> attempt options1 (world0\<lparr>apis := Opened [str ''key:fx''] None\<rparr>) body1
         \<lparr>shared = globals0, forceUseDeepL = False\<rparr>
       = (Done (HttpError 500 (str ''no available keys and urls'')),
          \<lparr>shared = globals0\<lparr>calls := [Probe True (str ''key:fx'')]\<rparr>, forceUseDeepL = False\<rparr>)
   \<and> attempt options1 worldUp body1 \<lparr>shared = globals0, forceUseDeepL = False\<rparr>
       = dispatch options1 worldUp body1
           \<lparr>shared = globals0\<lparr>saku := pool1,
                     calls := [Probe True (str ''key:fx''), Probe False (str ''http://u'')]\<rparr>,
            forceUseDeepL = False\<rparr>"
proof -
  let ?busy = "\<lparr>shared = globals0\<lparr>isChecking := True\<rparr>, forceUseDeepL = False\<rparr>"
  let ?st = "\<lparr>shared = globals0, forceUseDeepL = False\<rparr>"
  let ?e = "ErrOther (str ''open apis.txt: no such file or directory'')"
  let ?down = "world0\<lparr>apis := Opened [str ''key:fx''] None\<rparr>"
  let ?g3 = "globals0\<lparr>calls := [Probe True (str ''key:fx'')]\<rparr>"
  let ?g4 = "globals0\<lparr>saku := pool1,
                     calls := [Probe True (str ''key:fx''), Probe False (str ''http://u'')]\<rparr>"
  have k: "keys (saku globals0) = []" and u: "urls (saku globals0) = []"
    by (simp_all add: globals0_def)
  have kb: "keys (saku (shared ?busy)) = []" and ub: "urls (saku (shared ?busy)) = []"
    by (simp_all add: globals0_def)
  have ks: "keys (saku (shared ?st)) = []" and us: "urls (saku (shared ?st)) = []"
    by (simp_all add: globals0_def)
  have r1: "runCheck worldUp (shared ?busy) = (Inl ErrIsChecking, globals0\<lparr>isChecking := True\<rparr>)"
    by (simp add: runCheck_busy)
  have r2: "runCheck world0 (shared ?st) = (Inl ?e, globals0)"
    by (simp add: runCheck_failed globals0_def world0_def parseKeysAndURLs_def)
  have r3: "runCheck ?down (shared ?st) = (Inr (1, 0), ?g3)"
    by (simp add: fixtures runCheck_def parseKeysAndURLs_def TrimSpace_def IsSpace_def
          isComment_def HasPrefix_def str_def probedAlive_def checkAlive_def Let_def)
  have r4: "runCheck worldUp (shared ?st) = (Inr (1, 1), ?g4)"
    by (simp add: runCheck_worldUp)
  have e3: "keys (saku ?g3) = [] \<and> urls (saku ?g3) = []"
    by (simp add: globals0_def)
  have n4: "\<not> (keys (saku ?g4) = [] \<and> urls (saku ?g4) = [])"
    by (simp add: pool1_def)
  from pool_exhaustion[OF kb ub, of worldUp "globals0\<lparr>isChecking := True\<rparr>" options1 body1 ?e "(1, 1)"] r1
  have a1: "attempt options1 worldUp body1 ?busy
       = (Done (HttpError 500 (str ''no available keys or urls, currently rechecking'')), ?busy)"
    by simp
  from pool_exhaustion[OF ks us, of world0 globals0 options1 body1 ?e "(1, 1)"] r2
  have a2: "attempt options1 world0 body1 ?st = (Done (HttpError 500 (Error ?e)), ?st)"
    by simp
  from pool_exhaustion[OF ks us, of ?down ?g3 options1 body1 ?e "(1, 0)"] r3 e3
  have a3: "attempt options1 ?down body1 ?st
       = (Done (HttpError 500 (str ''no available keys and urls'')), ?st\<lparr>shared := ?g3\<rparr>)"
    by blast
  from pool_exhaustion[OF ks us, of worldUp ?g4 options1 body1 ?e "(1, 1)"] r4 n4
  have a4: "attempt options1 worldUp body1 ?st = dispatch options1 worldUp body1 (?st\<lparr>shared := ?g4\<rparr>)"
    by blast
  from k u a1 a2 a3 a4 show ?thesis by simp
qed

section \<open>A body that does not decode\<close>

lemma dispatch_malformed:
  "jsonDecode c reqBody = None \<Longrightarrow>
   dispatch c w reqBody st = (Done (HttpError 400 (str ''invalid request body'')), st)"
  by (simp add: dispatch_def Let_def)

lemma runCheck_calls:
  "\<exists>probes. calls (snd (runCheck w g)) = calls g @ probes \<and> list_all isProbe probes"
proof (cases "isChecking g")
  case True
  then show ?thesis by (simp add: runCheck_busy)
next
  case False
  show ?thesis
  proof (cases "parseKeysAndURLs (apis w)")
    case (Inl e)
    with False show ?thesis by (simp add: runCheck_failed)
  next
    case (Inr r)
    then obtain ks us where "parseKeysAndURLs (apis w) = Inr (ks, us)" by (cases r) simp
    with False show ?thesis by (auto simp: runCheck_done list_all_iff)
  qed
qed

text \<open>
  C7 does not hold as stated: the body is decoded after the top of the pass. With both
  slices empty and a refresh running, the request with a malformed body ends with the busy
  message and status 500, not with status 400; with both empty and no refresh running, the
  refresh probes the configured upstreams first.
\<close>

theorem malformed_body_counterexample:
  "jsonDecode options1 (str ''junk'') = None
   \<and> handleForward options1 [worldUp] (Inr (str ''junk'')) (globals0\<lparr>isChecking := True\<rparr>)
       = (Done (HttpError 500 (str ''no available keys or urls, currently rechecking'')),
          \<lparr>shared = globals0\<lparr>isChecking := True\<rparr>, forceUseDeepL = False\<rparr>)
   \<and> handleForward options1 [worldUp] (Inr (str ''junk'')) globals0
       = (Done (HttpError 400 (str ''invalid request body'')),
          \<lparr>shared = globals0\<lparr>saku := pool1,
                    calls := [Probe True (str ''key:fx''), Probe False (str ''http://u'')]\<rparr>,
           forceUseDeepL = False\<rparr>)"
proof -
  have d: "jsonDecode options1 (str ''junk'') = None"
    by (simp add: options1_def body1_def quoted_def str_def)
  have busy: "runCheck worldUp (globals0\<lparr>isChecking := True\<rparr>)
                = (Inl ErrIsChecking, globals0\<lparr>isChecking := True\<rparr>)"
    by (simp add: runCheck_busy)
  have e: "keys (saku globals0) = [] \<and> urls (saku globals0) = []"
    by (simp add: globals0_def)
  have n: "keys pool1 \<noteq> []" by (simp add: pool1_def)
  from d e busy have a: "handleForward options1 [worldUp] (Inr (str ''junk'')) (globals0\<lparr>isChecking := True\<rparr>)
       = (Done (HttpError 500 (str ''no available keys or urls, currently rechecking'')),
          \<lparr>shared = globals0\<lparr>isChecking := True\<rparr>, forceUseDeepL = False\<rparr>)"
    by (simp add: handleForward_def attempt_empty)
  from d e n have b: "handleForward options1 [worldUp] (Inr (str ''junk'')) globals0
       = (Done (HttpError 400 (str ''invalid request body'')),
          \<lparr>shared = globals0\<lparr>saku := pool1,
                    calls := [Probe True (str ''key:fx''), Probe False (str ''http://u'')]\<rparr>,
           forceUseDeepL = False\<rparr>)"
    by (simp add: handleForward_def attempt_empty runCheck_worldUp dispatch_malformed)
  from d a b show ?thesis by (intro conjI)
qed

text \<open>
  C7, amended: a request whose body does not decode ends in its first pass. With an
  upstream alive it ends with status 400 and the state is untouched (no call at all). With
  both slices empty the refresh runs first, and the request ends as the refresh decides:
  the busy message, the refresh error or the message that nothing is available (status
  500), and status 400 only when the refresh left an upstream alive. In all cases the only
  calls made are the probes of that refresh.
\<close>

theorem malformed_body:
  assumes "jsonDecode c reqBody = None"
  shows
    "(keys (saku g) \<noteq> [] \<or> urls (saku g) \<noteq> [] \<longrightarrow>
        handleForward c (w # ws) (Inr reqBody) g =
          (Done (HttpError 400 (str ''invalid request body'')), \<lparr>shared = g, forceUseDeepL = False\<rparr>))
     \<and> (keys (saku g) = [] \<and> urls (saku g) = [] \<longrightarrow>
        handleForward c (w # ws) (Inr reqBody) g =
          (case runCheck w g of
             (Inl e, g') \<Rightarrow>
               (Done (HttpError 500
                        (if e = ErrIsChecking
                         then str ''no available keys or urls, currently rechecking''
                         else Error e)),
                \<lparr>shared = g', forceUseDeepL = False\<rparr>)
           | (Inr n, g') \<Rightarrow>
               (Done (if keys (saku g') = [] \<and> urls (saku g') = []
                      then HttpError 500 (str ''no available keys and urls'')
                      else HttpError 400 (str ''invalid request body'')),
                \<lparr>shared = g', forceUseDeepL = False\<rparr>)))
     \<and> (\<exists>probes. calls (shared (snd (handleForward c (w # ws) (Inr reqBody) g))) = calls g @ probes
                  \<and> list_all isProbe probes)"
proof -
  let ?st = "\<lparr>shared = g, forceUseDeepL = False\<rparr>"
  have alive: "handleForward c (w # ws) (Inr reqBody) g =
          (Done (HttpError 400 (str ''invalid request body'')), ?st)"
    if "keys (saku g) \<noteq> [] \<or> urls (saku g) \<noteq> []"
    using that assms by (simp add: handleForward_def attempt_nonempty dispatch_malformed)
  have empty: "handleForward c (w # ws) (Inr reqBody) g =
          (case runCheck w g of
             (Inl e, g') \<Rightarrow>
               (Done (HttpError 500
                        (if e = ErrIsChecking
                         then str ''no available keys or urls, currently rechecking''
                         else Error e)),
                \<lparr>shared = g', forceUseDeepL = False\<rparr>)
           | (Inr n, g') \<Rightarrow>
               (Done (if keys (saku g') = [] \<and> urls (saku g') = []
                      then HttpError 500 (str ''no available keys and urls'')
                      else HttpError 400 (str ''invalid request body'')),
                \<lparr>shared = g', forceUseDeepL = False\<rparr>))"
    if "keys (saku g) = [] \<and> urls (saku g) = []"
    using that assms
    by (auto simp: handleForward_def attempt_empty dispatch_malformed split: prod.splits sum.splits)
  have "shared (snd (handleForward c (w # ws) (Inr reqBody) g)) = g
        \<or> shared (snd (handleForward c (w # ws) (Inr reqBody) g)) = snd (runCheck w g)"
  proof (cases "keys (saku g) = [] \<and> urls (saku g) = []")
    case True
    then show ?thesis by (auto simp: empty split: prod.splits sum.splits)
  next
    case False
    then show ?thesis by (simp add: alive)
  qed
  then have calls: "\<exists>probes. calls (shared (snd (handleForward c (w # ws) (Inr reqBody) g)))
                       = calls g @ probes \<and> list_all isProbe probes"
  proof
    assume "shared (snd (handleForward c (w # ws) (Inr reqBody) g)) = g"
    then have "calls (shared (snd (handleForward c (w # ws) (Inr reqBody) g))) = calls g @ []
               \<and> list_all isProbe []" by simp
    then show ?thesis by blast
  next
    assume "shared (snd (handleForward c (w # ws) (Inr reqBody) g)) = snd (runCheck w g)"
    with runCheck_calls[of w g] show ?thesis by simp
  qed
  from alive empty calls show ?thesis by blast
qed

theorem malformed_body_witness:
  "jsonDecode options1 (str ''junk'') = None
   \<and> keys (saku (globals0\<lparr>saku := pool1\<rparr>)) \<noteq> []
   \<and> handleForward options1 [worldUp] (Inr (str ''junk'')) (globals0\<lparr>saku := pool1\<rparr>)
       = (Done (HttpError 400 (str ''invalid request body'')),
          \<lparr>shared = globals0\<lparr>saku := pool1\<rparr>, forceUseDeepL = False\<rparr>)
   \<and> keys (saku globals0) = [] \<and> urls (saku globals0) = []
   \<and> handleForward options1 [world0] (Inr (str ''junk'')) globals0
       = (Done (HttpError 500 (str ''open apis.txt: no such file or directory'')),
          \<lparr>shared = globals0, forceUseDeepL = False\<rparr>)"
proof -
  have d: "jsonDecode options1 (str ''junk'') = None"
    by (simp add: options1_def body1_def quoted_def str_def)
  have n: "keys (saku (globals0\<lparr>saku := pool1\<rparr>)) \<noteq> []"
    by (simp add: pool1_def)
  have e: "keys (saku globals0) = [] \<and> urls (saku globals0) = []"
    by (simp add: globals0_def)
  have r: "runCheck world0 globals0
             = (Inl (ErrOther (str ''open apis.txt: no such file or directory'')), globals0)"
    by (simp add: runCheck_failed globals0_def world0_def parseKeysAndURLs_def)
  note up = malformed_body[OF d, of "globals0\<lparr>saku := pool1\<rparr>" worldUp "[]"]
  note down = malformed_body[OF d, of globals0 world0 "[]"]
  from up n have a: "handleForward options1 [worldUp] (Inr (str ''junk'')) (globals0\<lparr>saku := pool1\<rparr>)
       = (Done (HttpError 400 (str ''invalid request body'')),
          \<lparr>shared = globals0\<lparr>saku := pool1\<rparr>, forceUseDeepL = False\<rparr>)"
    by blast
  from down e have "handleForward options1 [world0] (Inr (str ''junk'')) globals0 =
          (case runCheck world0 globals0 of
             (Inl e, g') \<Rightarrow>
               (Done (HttpError 500
                        (if e = ErrIsChecking
                         then str ''no available keys or urls, currently rechecking''
                         else Error e)),
                \<lparr>shared = g', forceUseDeepL = False\<rparr>)
           | (Inr n, g') \<Rightarrow>
               (Done (if keys (saku g') = [] \<and> urls (saku g') = []
                      then HttpError 500 (str ''no available keys and urls'')
                      else HttpError 400 (str ''invalid request body'')),
                \<lparr>shared = g', forceUseDeepL = False\<rparr>))"
    by blast
  then have b: "handleForward options1 [world0] (Inr (str ''junk'')) globals0
       = (Done (HttpError 500 (str ''open apis.txt: no such file or directory'')),
          \<lparr>shared = globals0, forceUseDeepL = False\<rparr>)"
    by (simp add: r)
  from d n a e b show ?thesis by (intro conjI) simp_all
qed

section \<open>The completeness check\<close>

text \<open>What the two updates of the state of a request leave alone.\<close>

lemma noted_simps [simp]:
  "forceUseDeepL (noted x st) = forceUseDeepL st"
  "saku (shared (noted x st)) = saku (shared st)"
  "calls (shared (noted x st)) = calls (shared st) @ [x]"
  by (simp_all add: noted_def)

lemma evicted_simps [simp]:
  "forceUseDeepL (evicted isKey keyOrURL st) = forceUseDeepL st"
  "calls (shared (evicted isKey keyOrURL st)) = calls (shared st)"
  by (simp_all add: evicted_def)

text \<open>Every answer of an upstream that the handler accepts goes through \<open>verify\<close>.\<close>

lemma dispatch_endpoint_answered:
  assumes "jsonDecode c reqBody = Some lxReq"
    and "selectFamily (forceUseDeepL st) w (saku (shared st)) \<noteq> 0"
    and "urls (saku (shared st)) \<noteq> []"
    and "deepLXReq_post w lxReq (urls (saku (shared st)) ! (randIndex w mod length (urls (saku (shared st)))))
           = Inr lxResp"
    and "Code lxResp = 200"
  shows "dispatch c w reqBody st
           = verify c w lxReq (selectFamily (forceUseDeepL st) w (saku (shared st))) lxResp
               (noted (Post False (urls (saku (shared st)) ! (randIndex w mod length (urls (saku (shared st)))))) st)"
  using assms by (simp add: dispatch_def Let_def IntN_def)

lemma dispatch_account_answered:
  assumes "jsonDecode c reqBody = Some lxReq"
    and "selectFamily (forceUseDeepL st) w (saku (shared st)) = 0"
    and "keys (saku (shared st)) \<noteq> []"
    and "deepLReq_post w
           \<lparr>lReq_Text = [lxReq_Text lxReq], lReq_TargetLang = lxReq_TargetLang lxReq, lReq_TagHandling = []\<rparr>
           (keys (saku (shared st)) ! (randIndex w mod length (keys (saku (shared st)))))
           = Inr lResp"
    and "Translations lResp = Some (t # ts)"
  shows "dispatch c w reqBody st
           = verify c w lxReq 0 \<lparr>Code = 200, ID = 0, Data = tr_Text t, Alternatives = [tr_Text t]\<rparr>
               (noted (Post True (keys (saku (shared st)) ! (randIndex w mod length (keys (saku (shared st)))))) st)"
  using assms by (simp add: dispatch_def Let_def IntN_def)

text \<open>What \<open>verify\<close> does with an answer when the check is switched on.\<close>

lemma attempt_past_top:
  "refreshIfEmpty w (shared st) = (None, g) \<Longrightarrow>
   attempt c w reqBody st = dispatch c w reqBody (st\<lparr>shared := g\<rparr>)"
  by (simp add: attempt_def)

lemma verify_answer:
  assumes "enableCheckContainsChinese c"
  shows
    "((\<exists>r \<in> set (Data lxResp). isHan c r) \<longrightarrow>
        verify c w lxReq use lxResp st = (Done (Translated lxResp), st))
     \<and> (\<not> (\<exists>r \<in> set (Data lxResp). isHan c r) \<and> use = 1 \<and> keys (saku (shared st)) \<noteq> [] \<longrightarrow>
        verify c w lxReq use lxResp st = (Again, st\<lparr>forceUseDeepL := True\<rparr>))
     \<and> (\<not> (\<exists>r \<in> set (Data lxResp). isHan c r) \<and> \<not> (use = 1 \<and> keys (saku (shared st)) \<noteq> []) \<longrightarrow>
        verify c w lxReq use lxResp st
          = (case googleTranslate w (lxReq_Text lxReq) (lxReq_SourceLang lxReq) (lxReq_TargetLang lxReq) of
               None \<Rightarrow> (Panicked, noted Google st)
             | Some (Inl e) \<Rightarrow> (Done (Translated lxResp), noted Google st)
             | Some (Inr googleTranslateText) \<Rightarrow>
                 (Done (Translated (lxResp\<lparr>Data := googleTranslateText\<rparr>)), noted Google st)))"
  using assms by (simp add: verify_def containsChinese_def list_ex_iff)

text \<open>
  C10 does not hold as stated: the check looks at the text of the answer, not at the script
  of the target language. In the run below the check is on, the request asks for English,
  a key is alive, and the endpoint answers with an English text that holds one Han
  character: the handler returns this answer as it is, with no forced retry and no call to
  Google.
\<close>

theorem han_check_counterexample:
  "lxReq_TargetLang requestEN = str ''EN''
   \<and> handleForward optionsEN [worldMixed] (Inr bodyEN) (globals0\<lparr>saku := pool1\<rparr>)
       = (Done (Translated \<lparr>Code = 200, ID = 1, Data = str ''hello '' @ [20320], Alternatives = []\<rparr>),
          \<lparr>shared = globals0\<lparr>saku := pool1, calls := [Post False (str ''http://u'')]\<rparr>,
           forceUseDeepL = False\<rparr>)"
  by (simp add: fixturesEN fixtures run_defs)

text \<open>
  C10, amended: with the check switched on, in every pass of the handler in which an
  upstream answers (an endpoint with code 200, a key with at least one translation), what
  the handler does depends on whether the text of the answer holds a Han character, and
  not on the target language of the request, whatever it is. A text with a Han character
  is the reply. A text with none is never the reply as it stands: after an endpoint and
  with a key alive the pass jumps back with the override set, and otherwise Google is
  asked (its text replaces the answer's, and the answer stays when Google fails). The
  target language only travels to the upstream and to Google as an argument.
\<close>

theorem han_check_on_every_answer:
  assumes "enableCheckContainsChinese c"
    and "refreshIfEmpty w (shared st) = (None, g)"
    and "jsonDecode c reqBody = Some (lxReq\<lparr>lxReq_TargetLang := targetLang\<rparr>)"
    and "use = selectFamily (forceUseDeepL st) w (saku g)"
    and "u = urls (saku g) ! (randIndex w mod length (urls (saku g)))"
    and "key = keys (saku g) ! (randIndex w mod length (keys (saku g)))"
  shows
    "(use \<noteq> 0 \<and> urls (saku g) \<noteq> []
        \<and> deepLXReq_post w (lxReq\<lparr>lxReq_TargetLang := targetLang\<rparr>) u = Inr lxResp
        \<and> Code lxResp = 200 \<longrightarrow>
        ((\<exists>r \<in> set (Data lxResp). isHan c r) \<longrightarrow>
           attempt c w reqBody st
             = (Done (Translated lxResp), noted (Post False u) (st\<lparr>shared := g\<rparr>)))
        \<and> (\<not> (\<exists>r \<in> set (Data lxResp). isHan c r) \<and> use = 1 \<and> keys (saku g) \<noteq> [] \<longrightarrow>
           attempt c w reqBody st
             = (Again, (noted (Post False u) (st\<lparr>shared := g\<rparr>))\<lparr>forceUseDeepL := True\<rparr>))
        \<and> (\<not> (\<exists>r \<in> set (Data lxResp). isHan c r) \<and> \<not> (use = 1 \<and> keys (saku g) \<noteq> []) \<longrightarrow>
           attempt c w reqBody st
             = (case googleTranslate w (lxReq_Text lxReq) (lxReq_SourceLang lxReq) targetLang of
                  None \<Rightarrow> (Panicked, noted Google (noted (Post False u) (st\<lparr>shared := g\<rparr>)))
                | Some (Inl e) \<Rightarrow>
                    (Done (Translated lxResp), noted Google (noted (Post False u) (st\<lparr>shared := g\<rparr>)))
                | Some (Inr googleTranslateText) \<Rightarrow>
                    (Done (Translated (lxResp\<lparr>Data := googleTranslateText\<rparr>)),
                     noted Google (noted (Post False u) (st\<lparr>shared := g\<rparr>))))))
     \<and> (use = 0 \<and> keys (saku g) \<noteq> []
        \<and> deepLReq_post w
             \<lparr>lReq_Text = [lxReq_Text lxReq], lReq_TargetLang = targetLang, lReq_TagHandling = []\<rparr> key
           = Inr lResp
        \<and> Translations lResp = Some (t # ts) \<longrightarrow>
        ((\<exists>r \<in> set (tr_Text t). isHan c r) \<longrightarrow>
           attempt c w reqBody st
             = (Done (Translated \<lparr>Code = 200, ID = 0, Data = tr_Text t, Alternatives = [tr_Text t]\<rparr>),
                noted (Post True key) (st\<lparr>shared := g\<rparr>)))
        \<and> (\<not> (\<exists>r \<in> set (tr_Text t). isHan c r) \<longrightarrow>
           attempt c w reqBody st
             = (case googleTranslate w (lxReq_Text lxReq) (lxReq_SourceLang lxReq) targetLang of
                  None \<Rightarrow> (Panicked, noted Google (noted (Post True key) (st\<lparr>shared := g\<rparr>)))
                | Some (Inl e) \<Rightarrow>
                    (Done (Translated \<lparr>Code = 200, ID = 0, Data = tr_Text t, Alternatives = [tr_Text t]\<rparr>),
                     noted Google (noted (Post True key) (st\<lparr>shared := g\<rparr>)))
                | Some (Inr googleTranslateText) \<Rightarrow>
                    (Done (Translated \<lparr>Code = 200, ID = 0, Data = googleTranslateText,
                                       Alternatives = [tr_Text t]\<rparr>),
                     noted Google (noted (Post True key) (st\<lparr>shared := g\<rparr>))))))"
proof -
  let ?st = "st\<lparr>shared := g\<rparr>"
  let ?req = "lxReq\<lparr>lxReq_TargetLang := targetLang\<rparr>"
  have pass: "attempt c w reqBody st = dispatch c w reqBody ?st"
    using assms(2) by (rule attempt_past_top)
  have fam: "selectFamily (forceUseDeepL ?st) w (saku (shared ?st)) = use"
    using assms(4) by simp
  have endpoint: "attempt c w reqBody st = verify c w ?req use lxResp (noted (Post False u) ?st)"
    if h: "use \<noteq> 0 \<and> urls (saku g) \<noteq> []
        \<and> deepLXReq_post w ?req u = Inr lxResp \<and> Code lxResp = 200"
  proof -
    from h assms(5) fam
    have "dispatch c w reqBody ?st
            = verify c w ?req (selectFamily (forceUseDeepL ?st) w (saku (shared ?st))) lxResp
                (noted (Post False (urls (saku (shared ?st))
                   ! (randIndex w mod length (urls (saku (shared ?st)))))) ?st)"
      by (intro dispatch_endpoint_answered[OF assms(3)]) simp_all
    with pass fam assms(5) show ?thesis by simp
  qed
  have account: "attempt c w reqBody st
        = verify c w ?req 0 \<lparr>Code = 200, ID = 0, Data = tr_Text t, Alternatives = [tr_Text t]\<rparr>
            (noted (Post True key) ?st)"
    if h: "use = 0 \<and> keys (saku g) \<noteq> []
        \<and> deepLReq_post w
             \<lparr>lReq_Text = [lxReq_Text lxReq], lReq_TargetLang = targetLang, lReq_TagHandling = []\<rparr> key
           = Inr lResp
        \<and> Translations lResp = Some (t # ts)"
  proof -
    from h assms(6) fam
    have "dispatch c w reqBody ?st
            = verify c w ?req 0 \<lparr>Code = 200, ID = 0, Data = tr_Text t, Alternatives = [tr_Text t]\<rparr>
                (noted (Post True (keys (saku (shared ?st))
                   ! (randIndex w mod length (keys (saku (shared ?st)))))) ?st)"
      by (intro dispatch_account_answered[OF assms(3), where lResp = lResp and ts = ts]) simp_all
    with pass assms(6) show ?thesis by simp
  qed
  note v1 = verify_answer[OF assms(1), where lxResp = lxResp and w = w and lxReq = ?req
      and use = use and st = "noted (Post False u) ?st"]
  note v0 = verify_answer[OF assms(1),
      where lxResp = "\<lparr>Code = 200, ID = 0, Data = tr_Text t, Alternatives = [tr_Text t]\<rparr>"
      and w = w and lxReq = ?req and use = 0 and st = "noted (Post True key) ?st"]
  show ?thesis
  proof (intro conjI impI)
    assume h: "use \<noteq> 0 \<and> urls (saku g) \<noteq> []
        \<and> deepLXReq_post w ?req u = Inr lxResp \<and> Code lxResp = 200"
      and han: "\<exists>r \<in> set (Data lxResp). isHan c r"
    from v1 han show "attempt c w reqBody st
             = (Done (Translated lxResp), noted (Post False u) ?st)"
      by (simp add: endpoint[OF h])
  next
    assume h: "use \<noteq> 0 \<and> urls (saku g) \<noteq> []
        \<and> deepLXReq_post w ?req u = Inr lxResp \<and> Code lxResp = 200"
      and no: "\<not> (\<exists>r \<in> set (Data lxResp). isHan c r) \<and> use = 1 \<and> keys (saku g) \<noteq> []"
    from v1 no show "attempt c w reqBody st
             = (Again, (noted (Post False u) ?st)\<lparr>forceUseDeepL := True\<rparr>)"
      by (simp add: endpoint[OF h])
  next
    assume h: "use \<noteq> 0 \<and> urls (saku g) \<noteq> []
        \<and> deepLXReq_post w ?req u = Inr lxResp \<and> Code lxResp = 200"
      and no: "\<not> (\<exists>r \<in> set (Data lxResp). isHan c r) \<and> \<not> (use = 1 \<and> keys (saku g) \<noteq> [])"
    from v1 no show "attempt c w reqBody st
             = (case googleTranslate w (lxReq_Text lxReq) (lxReq_SourceLang lxReq) targetLang of
                  None \<Rightarrow> (Panicked, noted Google (noted (Post False u) ?st))
                | Some (Inl e) \<Rightarrow>
                    (Done (Translated lxResp), noted Google (noted (Post False u) ?st))
                | Some (Inr googleTranslateText) \<Rightarrow>
                    (Done (Translated (lxResp\<lparr>Data := googleTranslateText\<rparr>)),
                     noted Google (noted (Post False u) ?st)))"
      by (simp add: endpoint[OF h])
  next
    assume h: "use = 0 \<and> keys (saku g) \<noteq> []
        \<and> deepLReq_post w
             \<lparr>lReq_Text = [lxReq_Text lxReq], lReq_TargetLang = targetLang, lReq_TagHandling = []\<rparr> key
           = Inr lResp
        \<and> Translations lResp = Some (t # ts)"
      and han: "\<exists>r \<in> set (tr_Text t). isHan c r"
    from v0 han show "attempt c w reqBody st
             = (Done (Translated \<lparr>Code = 200, ID = 0, Data = tr_Text t, Alternatives = [tr_Text t]\<rparr>),
                noted (Post True key) ?st)"
      by (simp add: account[OF h])
  next
    assume h: "use = 0 \<and> keys (saku g) \<noteq> []
        \<and> deepLReq_post w
             \<lparr>lReq_Text = [lxReq_Text lxReq], lReq_TargetLang = targetLang, lReq_TagHandling = []\<rparr> key
           = Inr lResp
        \<and> Translations lResp = Some (t # ts)"
      and no: "\<not> (\<exists>r \<in> set (tr_Text t). isHan c r)"
    from v0 no show "attempt c w reqBody st
             = (case googleTranslate w (lxReq_Text lxReq) (lxReq_SourceLang lxReq) targetLang of
                  None \<Rightarrow> (Panicked, noted Google (noted (Post True key) ?st))
                | Some (Inl e) \<Rightarrow>
                    (Done (Translated \<lparr>Code = 200, ID = 0, Data = tr_Text t, Alternatives = [tr_Text t]\<rparr>),
                     noted Google (noted (Post True key) ?st))
                | Some (Inr googleTranslateText) \<Rightarrow>
                    (Done (Translated \<lparr>Code = 200, ID = 0, Data = googleTranslateText,
                                       Alternatives = [tr_Text t]\<rparr>),
                     noted Google (noted (Post True key) ?st)))"
      by (simp add: account[OF h] split: option.splits sum.splits)
  qed
qed

theorem han_check_on_every_answer_witness:
  "enableCheckContainsChinese optionsEN
   \<and> jsonDecode optionsEN bodyEN = Some requestEN
   \<and> lxReq_TargetLang requestEN = str ''EN''
   \<and> attempt optionsEN worldUp bodyEN \<lparr>shared = globals0\<lparr>saku := pool1\<rparr>, forceUseDeepL = False\<rparr>
       = (Again, \<lparr>shared = globals0\<lparr>saku := pool1, calls := [Post False (str ''http://u'')]\<rparr>,
                  forceUseDeepL = True\<rparr>)
   \<and> attempt optionsEN worldUp bodyEN
         \<lparr>shared = globals0\<lparr>saku := \<lparr>keys = [], urls = [str ''http://u'']\<rparr>\<rparr>, forceUseDeepL = False\<rparr>
       = (Done (Translated \<lparr>Code = 200, ID = 1, Data = [20320, 22909], Alternatives = []\<rparr>),
          \<lparr>shared = globals0\<lparr>saku := \<lparr>keys = [], urls = [str ''http://u'']\<rparr>,
                    calls := [Post False (str ''http://u''), Google]\<rparr>,
           forceUseDeepL = False\<rparr>)
   \<and> attempt optionsEN worldMixed bodyEN \<lparr>shared = globals0\<lparr>saku := pool1\<rparr>, forceUseDeepL = False\<rparr>
       = (Done (Translated \<lparr>Code = 200, ID = 1, Data = str ''hello '' @ [20320], Alternatives = []\<rparr>),
          \<lparr>shared = globals0\<lparr>saku := pool1, calls := [Post False (str ''http://u'')]\<rparr>,
           forceUseDeepL = False\<rparr>)
   \<and> attempt optionsEN
         (worldUp\<lparr>randFamily := 0, deepLReq_post := (\<lambda>req key. Inr (translated (str ''hello'')))\<rparr>)
         bodyEN \<lparr>shared = globals0\<lparr>saku := pool1\<rparr>, forceUseDeepL = False\<rparr>
       = (Done (Translated \<lparr>Code = 200, ID = 0, Data = [20320, 22909], Alternatives = [str ''hello'']\<rparr>),
          \<lparr>shared = globals0\<lparr>saku := pool1, calls := [Post True (str ''key:fx''), Google]\<rparr>,
           forceUseDeepL = False\<rparr>)"
proof -
  let ?full = "\<lparr>shared = globals0\<lparr>saku := pool1\<rparr>, forceUseDeepL = False\<rparr>"
  let ?bare = "\<lparr>shared = globals0\<lparr>saku := \<lparr>keys = [], urls = [str ''http://u'']\<rparr>\<rparr>,
                forceUseDeepL = False\<rparr>"
  let ?hello = "\<lparr>Code = 200, ID = 1, Data = str ''hello'', Alternatives = []\<rparr>"
  let ?mixed = "\<lparr>Code = 200, ID = 1, Data = str ''hello '' @ [20320], Alternatives = []\<rparr>"
  let ?wk = "worldUp\<lparr>randFamily := 0, deepLReq_post := (\<lambda>req key. Inr (translated (str ''hello'')))\<rparr>"
  let ?t = "\<lparr>DetectedSourceLang = str ''EN'', tr_Text = str ''hello''\<rparr>"
  have on: "enableCheckContainsChinese optionsEN"
    by (simp add: optionsEN_def options1_def)
  have dec: "jsonDecode optionsEN bodyEN = Some (requestEN\<lparr>lxReq_TargetLang := str ''EN''\<rparr>)"
    by (simp add: optionsEN_def requestEN_def)
  have en: "lxReq_TargetLang requestEN = str ''EN''" by (simp add: requestEN_def)
  have topf: "refreshIfEmpty w (shared ?full) = (None, globals0\<lparr>saku := pool1\<rparr>)" for w
    by (simp add: refreshIfEmpty_def pool1_def)
  have topb: "refreshIfEmpty worldUp (shared ?bare)
                = (None, globals0\<lparr>saku := \<lparr>keys = [], urls = [str ''http://u'']\<rparr>\<rparr>)"
    by (simp add: refreshIfEmpty_def)
  have latin: "\<not> (\<exists>r \<in> set (str ''hello''). isHan optionsEN r)"
    by (simp add: optionsEN_def options1_def str_def)
  note a = han_check_on_every_answer[OF on topf[of worldUp] dec refl refl refl,
      where lxResp = ?hello]
  have a': "attempt optionsEN worldUp bodyEN ?full
       = (Again, \<lparr>shared = globals0\<lparr>saku := pool1, calls := [Post False (str ''http://u'')]\<rparr>,
                  forceUseDeepL = True\<rparr>)"
    using a latin
    by (simp add: selectFamily_def worldUp_def pool1_def noted_def globals0_def requestEN_def)
  note b = han_check_on_every_answer[OF on topb dec refl refl refl, where lxResp = ?hello]
  have b': "attempt optionsEN worldUp bodyEN ?bare
       = (Done (Translated \<lparr>Code = 200, ID = 1, Data = [20320, 22909], Alternatives = []\<rparr>),
          \<lparr>shared = globals0\<lparr>saku := \<lparr>keys = [], urls = [str ''http://u'']\<rparr>,
                    calls := [Post False (str ''http://u''), Google]\<rparr>,
           forceUseDeepL = False\<rparr>)"
    using b latin
    by (simp add: selectFamily_def worldUp_def noted_def globals0_def requestEN_def)
  note c = han_check_on_every_answer[OF on topf[of worldMixed] dec refl refl refl,
      where lxResp = ?mixed]
  have c': "attempt optionsEN worldMixed bodyEN ?full
       = (Done (Translated ?mixed),
          \<lparr>shared = globals0\<lparr>saku := pool1, calls := [Post False (str ''http://u'')]\<rparr>,
           forceUseDeepL = False\<rparr>)"
    using c
    by (simp add: selectFamily_def worldMixed_def worldUp_def pool1_def noted_def globals0_def
          requestEN_def optionsEN_def options1_def str_def)
  note d = han_check_on_every_answer[OF on topf[of ?wk] dec refl refl refl,
      where lResp = "translated (str ''hello'')" and t = ?t and ts = "[]"]
  have d': "attempt optionsEN ?wk bodyEN ?full
       = (Done (Translated \<lparr>Code = 200, ID = 0, Data = [20320, 22909], Alternatives = [str ''hello'']\<rparr>),
          \<lparr>shared = globals0\<lparr>saku := pool1, calls := [Post True (str ''key:fx''), Google]\<rparr>,
           forceUseDeepL = False\<rparr>)"
    using d latin
    by (simp add: selectFamily_def worldUp_def pool1_def noted_def globals0_def requestEN_def
          translated_def)
  from on dec en a' b' c' d' show ?thesis by simp
qed

section \<open>The forced family\<close>

lemma verify_force:
  "forceUseDeepL st \<Longrightarrow> forceUseDeepL (snd (verify c w lxReq use lxResp st))"
  by (simp add: verify_def split: option.splits sum.splits)

lemma verify_calls:
  "calls (shared (snd (verify c w lxReq use lxResp st))) = calls (shared st)
   \<or> calls (shared (snd (verify c w lxReq use lxResp st))) = calls (shared st) @ [Google]"
  by (simp add: verify_def split: option.splits sum.splits)

lemma dispatch_force:
  "forceUseDeepL st \<Longrightarrow> forceUseDeepL (snd (dispatch c w reqBody st))"
  by (simp add: dispatch_def Let_def selectFamily_def verify_force
      split: option.splits sum.splits list.splits)

lemma dispatch_forced_calls:
  assumes "forceUseDeepL st"
  shows "\<exists>cs. calls (shared (snd (dispatch c w reqBody st))) = calls (shared st) @ cs
              \<and> (\<forall>u. Post False u \<notin> set cs)"
proof (cases "jsonDecode c reqBody")
  case None
  then have "calls (shared (snd (dispatch c w reqBody st))) = calls (shared st) @ []"
    by (simp add: dispatch_malformed)
  then show ?thesis by fastforce
next
  case (Some lxReq)
  show ?thesis
  proof (cases "IntN (randIndex w) (length (keys (saku (shared st))))")
    case None
    with Some assms have "calls (shared (snd (dispatch c w reqBody st))) = calls (shared st) @ []"
      by (simp add: dispatch_def Let_def selectFamily_def)
    then show ?thesis by fastforce
  next
    case (Some keyIndex)
    let ?key = "keys (saku (shared st)) ! keyIndex"
    let ?st1 = "noted (Post True ?key) st"
    have "calls (shared (snd (dispatch c w reqBody st))) = calls (shared st) @ [Post True ?key]
          \<or> calls (shared (snd (dispatch c w reqBody st))) = calls (shared st) @ [Post True ?key, Google]"
      using assms \<open>jsonDecode c reqBody = Some lxReq\<close> Some
        verify_calls[of c w lxReq 0 _ ?st1]
      by (auto simp: dispatch_def Let_def selectFamily_def split: sum.splits option.splits list.splits)
    then show ?thesis by fastforce
  qed
qed

lemma refreshIfEmpty_calls:
  "\<exists>probes. calls (snd (refreshIfEmpty w g)) = calls g @ probes \<and> list_all isProbe probes"
proof (cases "keys (saku g) = [] \<and> urls (saku g) = []")
  case True
  then have "snd (refreshIfEmpty w g) = snd (runCheck w g)"
    by (simp add: refreshIfEmpty_def split: prod.splits sum.splits)
  with runCheck_calls[of w g] show ?thesis by simp
next
  case False
  then have "calls (snd (refreshIfEmpty w g)) = calls g @ [] \<and> list_all isProbe []"
    by (auto simp: refreshIfEmpty_def)
  then show ?thesis by blast
qed

lemma attempt_force:
  "forceUseDeepL st \<Longrightarrow> forceUseDeepL (snd (attempt c w reqBody st))"
  by (simp add: attempt_def dispatch_force split: prod.splits option.splits)

lemma attempt_forced_calls:
  assumes "forceUseDeepL st"
  shows "\<exists>cs. calls (shared (snd (attempt c w reqBody st))) = calls (shared st) @ cs
              \<and> (\<forall>u. Post False u \<notin> set cs)"
proof -
  obtain r g' where r: "refreshIfEmpty w (shared st) = (r, g')" by (cases "refreshIfEmpty w (shared st)")
  from refreshIfEmpty_calls[of w "shared st"] r obtain probes
    where probes: "calls g' = calls (shared st) @ probes" "list_all isProbe probes"
    by auto
  from probes(2) have np: "\<forall>u. Post False u \<notin> set probes"
    by (auto simp: list_all_iff)
  show ?thesis
  proof (cases r)
    case (Some resp)
    with r probes np show ?thesis by (simp add: attempt_def)
  next
    case None
    from assms have "forceUseDeepL (st\<lparr>shared := g'\<rparr>)" by simp
    from dispatch_forced_calls[OF this, of c w reqBody] obtain cs
      where cs: "calls (shared (snd (dispatch c w reqBody (st\<lparr>shared := g'\<rparr>)))) = calls g' @ cs"
        "\<forall>u. Post False u \<notin> set cs"
      by auto
    with None r probes np
    have "calls (shared (snd (attempt c w reqBody st))) = calls (shared st) @ (probes @ cs)
          \<and> (\<forall>u. Post False u \<notin> set (probes @ cs))"
      by (simp add: attempt_def)
    then show ?thesis by blast
  qed
qed

lemma reTranslate_forced:
  "forceUseDeepL st \<Longrightarrow>
   forceUseDeepL (snd (reTranslate c ws reqBody st))
   \<and> (\<exists>cs. calls (shared (snd (reTranslate c ws reqBody st))) = calls (shared st) @ cs
            \<and> (\<forall>u. Post False u \<notin> set cs))"
proof (induction ws arbitrary: st)
  case Nil
  then have "calls (shared (snd (reTranslate c [] reqBody st))) = calls (shared st) @ []" by simp
  with Nil show ?case by fastforce
next
  case (Cons w ws)
  obtain r st' where a: "attempt c w reqBody st = (r, st')" by (cases "attempt c w reqBody st")
  from attempt_force[OF Cons.prems, of c w reqBody] a have f': "forceUseDeepL st'" by simp
  from attempt_forced_calls[OF Cons.prems, of c w reqBody] a obtain cs
    where cs: "calls (shared st') = calls (shared st) @ cs" "\<forall>u. Post False u \<notin> set cs"
    by auto
  show ?case
  proof (cases r)
    case Again
    from Cons.IH[OF f'] obtain cs' where
      "forceUseDeepL (snd (reTranslate c ws reqBody st'))"
      "calls (shared (snd (reTranslate c ws reqBody st'))) = calls (shared st') @ cs'"
      "\<forall>u. Post False u \<notin> set cs'"
      by auto
    with Again a cs
    have "forceUseDeepL (snd (reTranslate c (w # ws) reqBody st))
          \<and> calls (shared (snd (reTranslate c (w # ws) reqBody st))) = calls (shared st) @ (cs @ cs')
          \<and> (\<forall>u. Post False u \<notin> set (cs @ cs'))"
      by simp
    then show ?thesis by blast
  next
    case (Done resp)
    with a f' cs show ?thesis by simp
  next
    case Panicked
    with a f' cs show ?thesis by simp
  qed
qed

text \<open>
  C1 does not hold as stated: \<open>forceUseDeepL\<close> is declared before the label and nothing
  clears it. In the run below the endpoint answers \<open>hello\<close> (override set), the forced pass
  fails on the first key (evicted), and the third pass is still forced: it posts to the
  second key, although both slices are non-empty and the random choice of the family, had
  it been made, would have taken the endpoint.
\<close>

theorem force_counterexample:
  "handleForward options1 [worldUp, worldKeyDown, worldUp] (Inr body1) (globals0\<lparr>saku := pool2\<rparr>)
     = (Done (Translated \<lparr>Code = 200, ID = 0, Data = [20320, 22909], Alternatives = [[20320, 22909]]\<rparr>),
        \<lparr>shared = globals0
            \<lparr>saku := \<lparr>keys = [str ''key2''], urls = [str ''http://u'']\<rparr>,
             calls := [Post False (str ''http://u''), Post True (str ''key:fx''), Post True (str ''key2'')]\<rparr>,
         forceUseDeepL = True\<rparr>)
   \<and> selectFamily False worldUp \<lparr>keys = [str ''key2''], urls = [str ''http://u'']\<rparr> = 1"
  by (simp add: fixtures run_defs)

text \<open>
  C1, amended: when the check is on and an endpoint, chosen at random with a key alive,
  answers with a text without a Han character, the pass jumps back with the override set
  and the pool untouched; from then on the override stays set for the rest of the request:
  every later pass takes the family of the keys without a choice, and no later pass posts
  to an endpoint.
\<close>

theorem force_is_kept:
  assumes "p = saku (shared st)"
    and "u = urls p ! (randIndex w mod length (urls p))"
  shows
    "(enableCheckContainsChinese c \<and> \<not> forceUseDeepL st \<and> jsonDecode c reqBody = Some lxReq
        \<and> keys p \<noteq> [] \<and> urls p \<noteq> [] \<and> randFamily w mod 2 = 1
        \<and> deepLXReq_post w lxReq u = Inr lxResp \<and> Code lxResp = 200
        \<and> \<not> (\<exists>r \<in> set (Data lxResp). isHan c r) \<longrightarrow>
      dispatch c w reqBody st = (Again, (noted (Post False u) st)\<lparr>forceUseDeepL := True\<rparr>))
     \<and> (forceUseDeepL st \<longrightarrow>
          selectFamily (forceUseDeepL st) w p = 0
          \<and> forceUseDeepL (snd (reTranslate c ws reqBody st))
          \<and> (\<exists>cs. calls (shared (snd (reTranslate c ws reqBody st))) = calls (shared st) @ cs
                   \<and> (\<forall>v. Post False v \<notin> set cs)))"
proof -
  have set: "dispatch c w reqBody st = (Again, (noted (Post False u) st)\<lparr>forceUseDeepL := True\<rparr>)"
    if h: "enableCheckContainsChinese c \<and> \<not> forceUseDeepL st \<and> jsonDecode c reqBody = Some lxReq
        \<and> keys p \<noteq> [] \<and> urls p \<noteq> [] \<and> randFamily w mod 2 = 1
        \<and> deepLXReq_post w lxReq u = Inr lxResp \<and> Code lxResp = 200
        \<and> \<not> (\<exists>r \<in> set (Data lxResp). isHan c r)"
  proof -
    from h assms have fam: "selectFamily (forceUseDeepL st) w (saku (shared st)) = 1"
      by (simp add: selectFamily_def)
    from h assms fam have "dispatch c w reqBody st
        = verify c w lxReq 1 lxResp (noted (Post False u) st)"
      using dispatch_endpoint_answered[of c reqBody lxReq st w lxResp] by simp
    also from h assms have "\<dots> = (Again, (noted (Post False u) st)\<lparr>forceUseDeepL := True\<rparr>)"
      by (simp add: verify_def containsChinese_def list_ex_iff)
    finally show ?thesis .
  qed
  have kept: "selectFamily (forceUseDeepL st) w p = 0
          \<and> forceUseDeepL (snd (reTranslate c ws reqBody st))
          \<and> (\<exists>cs. calls (shared (snd (reTranslate c ws reqBody st))) = calls (shared st) @ cs
                   \<and> (\<forall>v. Post False v \<notin> set cs))"
    if f: "forceUseDeepL st"
    using reTranslate_forced[OF f, of c ws reqBody] f by (simp add: selectFamily_def)
  from set kept show ?thesis by blast
qed

theorem force_is_kept_witness:
  "dispatch options1 worldUp body1 \<lparr>shared = globals0\<lparr>saku := pool2\<rparr>, forceUseDeepL = False\<rparr>
     = (Again, \<lparr>shared = globals0\<lparr>saku := pool2, calls := [Post False (str ''http://u'')]\<rparr>,
                forceUseDeepL = True\<rparr>)
   \<and> forceUseDeepL \<lparr>shared = globals0\<lparr>saku := pool2, calls := [Post False (str ''http://u'')]\<rparr>,
                     forceUseDeepL = True\<rparr>
   \<and> selectFamily True worldUp pool2 = 0
   \<and> forceUseDeepL (snd (reTranslate options1 [worldKeyDown, worldUp] body1
         \<lparr>shared = globals0\<lparr>saku := pool2, calls := [Post False (str ''http://u'')]\<rparr>,
          forceUseDeepL = True\<rparr>))"
proof -
  let ?st0 = "\<lparr>shared = globals0\<lparr>saku := pool2\<rparr>, forceUseDeepL = False\<rparr>"
  let ?st1 = "\<lparr>shared = globals0\<lparr>saku := pool2, calls := [Post False (str ''http://u'')]\<rparr>,
               forceUseDeepL = True\<rparr>"
  let ?hello = "\<lparr>Code = 200, ID = 1, Data = str ''hello'', Alternatives = []\<rparr>"
  note first = force_is_kept[OF refl refl, where st = ?st0 and w = worldUp and c = options1
      and reqBody = body1 and lxReq = request1 and lxResp = ?hello and ws = "[]"]
  note later = force_is_kept[OF refl refl, where st = ?st1 and w = worldUp and c = options1
      and reqBody = body1 and lxReq = request1 and lxResp = ?hello and ws = "[worldKeyDown, worldUp]"]
  have h: "enableCheckContainsChinese options1 \<and> \<not> forceUseDeepL ?st0
        \<and> jsonDecode options1 body1 = Some request1
        \<and> keys (saku (shared ?st0)) \<noteq> [] \<and> urls (saku (shared ?st0)) \<noteq> []
        \<and> randFamily worldUp mod 2 = 1
        \<and> deepLXReq_post worldUp request1
             (urls (saku (shared ?st0)) ! (randIndex worldUp mod length (urls (saku (shared ?st0)))))
           = Inr ?hello
        \<and> Code ?hello = 200
        \<and> \<not> (\<exists>r \<in> set (Data ?hello). isHan options1 r)"
    by (simp add: options1_def worldUp_def pool2_def str_def)
  from first h have "dispatch options1 worldUp body1 ?st0
      = (Again, (noted (Post False (urls (saku (shared ?st0))
                   ! (randIndex worldUp mod length (urls (saku (shared ?st0)))))) ?st0)
                \<lparr>forceUseDeepL := True\<rparr>)"
    by blast
  then have a: "dispatch options1 worldUp body1 ?st0 = (Again, ?st1)"
    by (simp add: noted_def worldUp_def pool2_def globals0_def)
  have f: "forceUseDeepL ?st1" by simp
  from later f have b: "selectFamily (forceUseDeepL ?st1) worldUp (saku (shared ?st1)) = 0
      \<and> forceUseDeepL (snd (reTranslate options1 [worldKeyDown, worldUp] body1 ?st1))"
    by blast
  from a f b show ?thesis by simp
qed

section \<open>The index into the chosen slice\<close>

text \<open>
  Without the override the slice of the chosen family is not empty, and a pass panics only
  inside \<open>googleTranslate\<close>.
\<close>

lemma unforced_selection_in_bounds:
  assumes "keys p \<noteq> [] \<or> urls p \<noteq> []"
  shows "(selectFamily False w p = 0 \<longrightarrow> keys p \<noteq> [])
         \<and> (selectFamily False w p \<noteq> 0 \<longrightarrow> urls p \<noteq> [])"
  using assms by (auto simp: selectFamily_def)

lemma refreshIfEmpty_continues:
  "refreshIfEmpty w g = (None, g') \<Longrightarrow> keys (saku g') \<noteq> [] \<or> urls (saku g') \<noteq> []"
  by (auto simp: refreshIfEmpty_def split: if_splits prod.splits sum.splits)

lemma verify_Panicked:
  "fst (verify c w lxReq use lxResp st) = Panicked \<Longrightarrow>
   googleTranslate w (lxReq_Text lxReq) (lxReq_SourceLang lxReq) (lxReq_TargetLang lxReq) = None"
  by (auto simp: verify_def split: if_splits option.splits sum.splits)

lemma unforced_attempt_panics_only_in_google:
  assumes "\<not> forceUseDeepL st" and "fst (attempt c w reqBody st) = Panicked"
  shows "\<exists>lxReq. jsonDecode c reqBody = Some lxReq \<and>
           googleTranslate w (lxReq_Text lxReq) (lxReq_SourceLang lxReq) (lxReq_TargetLang lxReq) = None"
proof -
  obtain r g' where r: "refreshIfEmpty w (shared st) = (r, g')" by (cases "refreshIfEmpty w (shared st)")
  with assms(2) have none: "r = None" by (cases r) (simp_all add: attempt_def)
  with r have ne: "keys (saku g') \<noteq> [] \<or> urls (saku g') \<noteq> []"
    using refreshIfEmpty_continues by blast
  from r none assms(2) have d: "fst (dispatch c w reqBody (st\<lparr>shared := g'\<rparr>)) = Panicked"
    by (simp add: attempt_def)
  then obtain lxReq where dec: "jsonDecode c reqBody = Some lxReq"
    by (cases "jsonDecode c reqBody") (simp_all add: dispatch_malformed)
  let ?st = "st\<lparr>shared := g'\<rparr>"
  from unforced_selection_in_bounds[OF ne, of w]
  have bounds: "(selectFamily False w (saku g') = 0 \<longrightarrow> keys (saku g') \<noteq> [])
         \<and> (selectFamily False w (saku g') \<noteq> 0 \<longrightarrow> urls (saku g') \<noteq> [])" .
  from d dec assms(1) bounds
  have "googleTranslate w (lxReq_Text lxReq) (lxReq_SourceLang lxReq) (lxReq_TargetLang lxReq) = None"
    by (auto simp: dispatch_def Let_def IntN_def dest: verify_Panicked
        split: if_splits sum.splits option.splits list.splits)
  with dec show ?thesis by blast
qed

text \<open>
  C2 fails on the forced path: the override skips the choice of the family, the only place
  that looks at the lengths. In the run below the endpoint answers \<open>hello\<close> (override set),
  the forced pass fails on the only key, which is evicted, and the third pass, forced again
  with \<open>keys\<close> empty and \<open>urls\<close> not, calls \<open>rand.IntN(0)\<close> and panics.
\<close>

theorem forced_selection_panics:
  "handleForward options1 [worldUp, worldKeyDown, worldUp] (Inr body1) (globals0\<lparr>saku := pool1\<rparr>)
     = (Panicked,
        \<lparr>shared = globals0
            \<lparr>saku := \<lparr>keys = [], urls = [str ''http://u'']\<rparr>,
             calls := [Post False (str ''http://u''), Post True (str ''key:fx'')]\<rparr>,
         forceUseDeepL = True\<rparr>)"
  by (simp add: fixtures run_defs)

theorem forced_selection_panics_witness:
  "fst (handleForward options1 [worldUp, worldKeyDown, worldUp] (Inr body1) (globals0\<lparr>saku := pool1\<rparr>))
     = Panicked"
  by (simp only: forced_selection_panics fst_conv)

section \<open>The handler and the reachable pools\<close>

text \<open>
  The handler writes the pool through \<open>runCheck\<close> and \<open>removeKeyOrURL\<close> only, so the pool
  it leaves behind is a reachable one.
\<close>

lemma refreshIfEmpty_shared:
  "snd (refreshIfEmpty w g) = g \<or> snd (refreshIfEmpty w g) = snd (runCheck w g)"
  by (auto simp: refreshIfEmpty_def split: prod.splits sum.splits)

lemma verify_saku [simp]:
  "saku (shared (snd (verify c w lxReq use lxResp st))) = saku (shared st)"
  by (simp add: verify_def split: option.splits sum.splits)

lemma evicted_saku [simp]:
  "saku (shared (evicted isKey keyOrURL st)) = snd (removeKeyOrURL isKey keyOrURL (saku (shared st)))"
  by (simp add: evicted_def)

lemma dispatch_saku:
  "saku (shared (snd (dispatch c w reqBody st))) = saku (shared st)
   \<or> (\<exists>isKey keyOrURL.
         saku (shared (snd (dispatch c w reqBody st)))
           = snd (removeKeyOrURL isKey keyOrURL (saku (shared st))))"
  by (auto simp: dispatch_def Let_def split: option.splits sum.splits list.splits)

lemma dispatch_reachable:
  assumes "reachable (saku (shared st))"
  shows "reachable (saku (shared (snd (dispatch c w reqBody st))))"
  using dispatch_saku[of c w reqBody st] assms by (auto intro: reachable.evict)

lemma attempt_reachable:
  assumes "reachable (saku (shared st))"
  shows "reachable (saku (shared (snd (attempt c w reqBody st))))"
proof -
  obtain r g' where r: "refreshIfEmpty w (shared st) = (r, g')" by (cases "refreshIfEmpty w (shared st)")
  from refreshIfEmpty_shared[of w "shared st"] r
  have "g' = shared st \<or> g' = snd (runCheck w (shared st))" by simp
  with assms have g': "reachable (saku g')" by (auto intro: reachable.refresh)
  show ?thesis
  proof (cases r)
    case (Some resp)
    with r g' show ?thesis by (simp add: attempt_def)
  next
    case None
    from g' have "reachable (saku (shared (st\<lparr>shared := g'\<rparr>)))" by simp
    from dispatch_reachable[OF this, of c w reqBody] None r show ?thesis by (simp add: attempt_def)
  qed
qed

lemma reTranslate_reachable:
  "reachable (saku (shared st)) \<Longrightarrow> reachable (saku (shared (snd (reTranslate c ws reqBody st))))"
proof (induction ws arbitrary: st)
  case Nil
  then show ?case by simp
next
  case (Cons w ws)
  obtain r st' where a: "attempt c w reqBody st = (r, st')" by (cases "attempt c w reqBody st")
  from attempt_reachable[OF Cons.prems, of c w reqBody] a have "reachable (saku (shared st'))" by simp
  with Cons.IH[of st'] a show ?case by (cases r) simp_all
qed

lemma handleForward_reachable:
  "reachable (saku g) \<Longrightarrow> reachable (saku (shared (snd (handleForward c ws body g))))"
  by (cases body) (simp_all add: handleForward_def reTranslate_reachable)

end
